theory Spec2Isabelle
  imports Main "HOL-Library.Word"
begin

section \<open>The Rendezvous interface, as the programs use it\<close>

text \<open>
  The messaging library is an external collaborator. The programs use a handful of its
  calls; each is given the meaning its documentation states, restricted to what the two
  programs do with it. A message is a send subject, a reply subject and a list of named
  fields in insertion order. Every field that \<^verbatim>\<open>tibrvserver.c\<close> and
  \<^verbatim>\<open>tibrvvcclient.c\<close> write or read is a \<^verbatim>\<open>tibrv_u32\<close>, so a field value is a
  32-bit word.

  Calls that fail only on an invalid handle or exhausted memory (\<^verbatim>\<open>tibrvMsg_Create\<close>,
  \<^verbatim>\<open>tibrvMsg_Destroy\<close>, \<^verbatim>\<open>tibrvMsg_UpdateU32\<close>, the subject setters) are taken to
  succeed, so the \<^verbatim>\<open>exit(1)\<close> that follows each of them in the source has no branch
  here. Calls whose outcome depends on the message or on the environment
  (\<^verbatim>\<open>tibrvMsg_GetU32\<close>, \<^verbatim>\<open>tibrvTransport_SendReply\<close>, \<^verbatim>\<open>tibrvTransport_Send\<close>,
  \<^verbatim>\<open>tibrvEvent_CreateTimer\<close>, \<^verbatim>\<open>tibrvEvent_Destroy\<close>, \<^verbatim>\<open>tibrvQueue_TimedDispatch\<close>)
  return a status, and the source's branch on it is a branch of the model.
\<close>

type_synonym tibrv_u32 = "32 word"

datatype tibrv_status =
    TIBRV_OK
  | TIBRV_TIMEOUT
  | TIBRV_NOT_FOUND
  | TIBRV_INVALID_SUBJECT
  | TIBRV_INVALID_TRANSPORT
  | TIBRV_INVALID_EVENT

record tibrvMsg =
  send_subject :: "string option"
  reply_subject :: "string option"
  msg_fields :: "(string \<times> tibrv_u32) list"

definition tibrvMsg_Create :: tibrvMsg where
  "tibrvMsg_Create = \<lparr>send_subject = None, reply_subject = None, msg_fields = []\<rparr>"

definition tibrvMsg_SetSendSubject :: "tibrvMsg \<Rightarrow> string \<Rightarrow> tibrvMsg" where
  "tibrvMsg_SetSendSubject m subj = m\<lparr>send_subject := Some subj\<rparr>"

definition tibrvMsg_SetReplySubject :: "tibrvMsg \<Rightarrow> string \<Rightarrow> tibrvMsg" where
  "tibrvMsg_SetReplySubject m subj = m\<lparr>reply_subject := Some subj\<rparr>"

text \<open>Update replaces the value of the first field of that name, or appends a new field.\<close>

fun update_field :: "string \<Rightarrow> tibrv_u32 \<Rightarrow> (string \<times> tibrv_u32) list \<Rightarrow> (string \<times> tibrv_u32) list" where
  "update_field name v [] = [(name, v)]"
| "update_field name v (p # ps) =
     (if fst p = name then (name, v) # ps else p # update_field name v ps)"

definition tibrvMsg_UpdateU32 :: "tibrvMsg \<Rightarrow> string \<Rightarrow> tibrv_u32 \<Rightarrow> tibrvMsg" where
  "tibrvMsg_UpdateU32 m name v = m\<lparr>msg_fields := update_field name v (msg_fields m)\<rparr>"

text \<open>Get fails with \<^verbatim>\<open>TIBRV_NOT_FOUND\<close> when the message has no field of that name.\<close>

definition tibrvMsg_GetU32 :: "tibrvMsg \<Rightarrow> string \<Rightarrow> tibrv_status + tibrv_u32" where
  "tibrvMsg_GetU32 m name =
     (case map_of (msg_fields m) name of None \<Rightarrow> Inl TIBRV_NOT_FOUND | Some v \<Rightarrow> Inr v)"

text \<open>
  \<^verbatim>\<open>tibrvTransport_SendReply(transport, reply, request)\<close> addresses \<^verbatim>\<open>reply\<close> to the reply
  subject of \<^verbatim>\<open>request\<close> and sends it; the result is the message as it goes out. A request
  without a reply subject cannot be answered.
\<close>

definition tibrvTransport_SendReply :: "tibrvMsg \<Rightarrow> tibrvMsg \<Rightarrow> tibrv_status + tibrvMsg" where
  "tibrvTransport_SendReply reply request =
     (case reply_subject request of
        None \<Rightarrow> Inl TIBRV_INVALID_SUBJECT
      | Some r \<Rightarrow> Inr (reply\<lparr>send_subject := Some r\<rparr>))"

text \<open>
  The status display test that all three counting sites share:
  \<^verbatim>\<open>(count/status_frq)*status_frq == count\<close>, in unsigned 32-bit arithmetic.
\<close>

definition status_due :: "tibrv_u32 \<Rightarrow> tibrv_u32 \<Rightarrow> bool" where
  "status_due status_frq count = ((count div status_frq) * status_frq = count)"


section \<open>The server, \<^verbatim>\<open>tibrvserver.c\<close>\<close>

definition server_SEARCH_SUBJECT :: string where
  "server_SEARCH_SUBJECT = ''TIBRV.LOCATE''"

text \<open>The \<^verbatim>\<open>SEARCH_SUBJECT\<close> of \<^verbatim>\<open>tibrvclient.c\<close>, the client this server is paired with.\<close>

definition tibrvclient_SEARCH_SUBJECT :: string where
  "tibrvclient_SEARCH_SUBJECT = ''TIBRV.LOCATE''"

text \<open>The \<^verbatim>\<open>SEARCH_SUBJECT\<close> of \<^verbatim>\<open>tibrvvcclient.c\<close>.\<close>

definition client_SEARCH_SUBJECT :: string where
  "client_SEARCH_SUBJECT = ''TIBRV.VC.LOCATE''"

datatype server_line =
    Search_received
  | Search_reply_failed
  | Get_x_failed
  | Get_y_failed
  | Reply_failed
  | Requests_processed tibrv_u32
  | Dispatch_timeout
  | Dispatch_status tibrv_status

text \<open>
  The server's file-scope variables that its callbacks read: \<^verbatim>\<open>new_msg\<close>, \<^verbatim>\<open>status_frq\<close>
  and the inbox subject that \<^verbatim>\<open>main\<close> puts into \<^verbatim>\<open>search_reply\<close>.
\<close>

record server_config =
  new_msg :: bool
  srv_status_frq :: tibrv_u32
  inbox_subject :: string

text \<open>
  What changes while the server runs: the counter \<^verbatim>\<open>requests\<close>, the messages handed to
  the transport, and the lines printed.
\<close>

record server =
  srv_requests :: tibrv_u32
  srv_sent :: "tibrvMsg list"
  srv_out :: "server_line list"

definition server_init :: server where
  "server_init = \<lparr>srv_requests = 0, srv_sent = [], srv_out = []\<rparr>"

definition search_reply :: "server_config \<Rightarrow> tibrvMsg" where
  "search_reply cfg = tibrvMsg_SetReplySubject tibrvMsg_Create (inbox_subject cfg)"

text \<open>
  A callback either returns the new state or ends the process: \<open>Inl (c, s')\<close> is
  \<^verbatim>\<open>exit(c)\<close> in the state \<open>s'\<close> reached by then, with the error line printed.
\<close>

definition srv_print :: "server_line \<Rightarrow> server \<Rightarrow> server" where
  "srv_print l s = s\<lparr>srv_out := srv_out s @ [l]\<rparr>"

definition searchCallback ::
  "server_config \<Rightarrow> tibrvMsg \<Rightarrow> server \<Rightarrow> (nat \<times> server) + server" where
  "searchCallback cfg message s =
     (let s1 = srv_print Search_received s in
      case tibrvTransport_SendReply (search_reply cfg) message of
        Inl _ \<Rightarrow> Inl (1, srv_print Search_reply_failed s1)
      | Inr sent \<Rightarrow> Inr (s1\<lparr>srv_sent := srv_sent s1 @ [sent]\<rparr>))"

definition requestCallback ::
  "server_config \<Rightarrow> tibrvMsg \<Rightarrow> server \<Rightarrow> (nat \<times> server) + server" where
  "requestCallback cfg message s =
     (case tibrvMsg_GetU32 message ''x'' of
        Inl _ \<Rightarrow> Inl (1, srv_print Get_x_failed s)
      | Inr x \<Rightarrow>
     (case tibrvMsg_GetU32 message ''y'' of
        Inl _ \<Rightarrow> Inl (1, srv_print Get_y_failed s)
      | Inr y \<Rightarrow>
     (let sum = x + y in
      case (if new_msg cfg
            then (let request_reply = tibrvMsg_UpdateU32 tibrvMsg_Create ''sum'' sum
                  in tibrvTransport_SendReply request_reply message)
            else (let message' = tibrvMsg_UpdateU32 message ''sum'' sum
                  in tibrvTransport_SendReply message' message')) of
        Inl _ \<Rightarrow> Inl (1, srv_print Reply_failed s)
      | Inr sent \<Rightarrow>
          (let requests = srv_requests s + 1 in
           Inr (s\<lparr>srv_requests := requests,
                  srv_sent := srv_sent s @ [sent],
                  srv_out := srv_out s @
                    (if 0 < srv_status_frq cfg \<and> status_due (srv_status_frq cfg) requests
                     then [Requests_processed requests] else [])\<rparr>)))))"

text \<open>
  One turn of the dispatch loop is one return of \<^verbatim>\<open>tibrvQueue_TimedDispatch\<close>: it has run
  the callback of one queued event and returns \<^verbatim>\<open>TIBRV_OK\<close>, or it returns another status
  (\<^verbatim>\<open>TIBRV_TIMEOUT\<close> when the queue stayed empty for \<^verbatim>\<open>SERVER_TIMEOUT\<close> seconds).
\<close>

datatype queue_event = Search_request tibrvMsg | Work_request tibrvMsg

datatype dispatch = Dispatched queue_event | Returned tibrv_status

text \<open>
  The loop \<^verbatim>\<open>while (1 == 1)\<close> of \<^verbatim>\<open>main\<close> and the lines after it, over the turns the
  environment supplies. The result is the exit code, or \<open>None\<close> while the server is still
  in its loop when the supplied turns end.
\<close>

fun server_loop :: "server_config \<Rightarrow> dispatch list \<Rightarrow> server \<Rightarrow> nat option \<times> server" where
  "server_loop cfg [] s = (None, s)"
| "server_loop cfg (Dispatched (Search_request m) # ds) s =
     (case searchCallback cfg m s of
        Inl (c, s') \<Rightarrow> (Some c, s')
      | Inr s' \<Rightarrow> server_loop cfg ds s')"
| "server_loop cfg (Dispatched (Work_request m) # ds) s =
     (case requestCallback cfg m s of
        Inl (c, s') \<Rightarrow> (Some c, s')
      | Inr s' \<Rightarrow> server_loop cfg ds s')"
| "server_loop cfg (Returned return_code # ds) s =
     (if return_code \<noteq> TIBRV_OK
      then (Some 0,
            s\<lparr>srv_out := srv_out s @
                 [if return_code \<noteq> TIBRV_TIMEOUT then Dispatch_status return_code
                  else Dispatch_timeout,
                  Requests_processed (srv_requests s)]\<rparr>)
      else server_loop cfg ds s)"

definition server_main :: "server_config \<Rightarrow> dispatch list \<Rightarrow> nat option \<times> server" where
  "server_main cfg ds = server_loop cfg ds server_init"


section \<open>The virtual-circuit client, \<^verbatim>\<open>tibrvvcclient.c\<close>\<close>

datatype vcState = initializing | waiting | connected | disconnected

text \<open>
  A reading of \<^verbatim>\<open>tibrvMsg_GetCurrentTime\<close>, as \<^verbatim>\<open>tibrvMsgDateTime\<close> holds it.
\<close>

record tibrvMsgDateTime =
  sec :: int
  nsec :: tibrv_u32

text \<open>
  What the client prints, one constructor per format string, with the integer arguments
  of the call; the time-of-day prefix of a status line is left out. The two lines of
  the report that print a floating-point number carry the values the number is computed
  from: \<open>Took n start stop\<close> prints \<^verbatim>\<open>elapsed\<close>, and \<open>Rate n start stop\<close> prints
  \<^verbatim>\<open>(tibrv_f64) requests / elapsed\<close>, for \<^verbatim>\<open>requests\<close> \<open>= n\<close> and \<^verbatim>\<open>elapsed\<close> the
  time from the reading \<open>start\<close> to the reading \<open>stop\<close>. The floating-point arithmetic
  itself is not modelled.
\<close>

datatype stream = Stdout | Stderr

datatype line =
    Status tibrv_u32 tibrv_u32
  | Vc_disconnected
  | Completion_received
  | Received_while_sending tibrv_u32 tibrv_u32
  | Sent_summary tibrv_u32 tibrv_u32
  | Received_all tibrv_u32
  | Took tibrv_u32 tibrvMsgDateTime tibrvMsgDateTime
  | Rate tibrv_u32 tibrvMsgDateTime tibrvMsgDateTime
  | Received_partial tibrv_u32 tibrv_u32
  | Send_failed
  | Timer_failed
  | Destroy_failed

text \<open>
  The run configuration, fixed after argument parsing: \<^verbatim>\<open>requests\<close>, \<^verbatim>\<open>status_frq\<close>,
  whether \<^verbatim>\<open>interval\<close> is non-zero (paced mode); and what the environment returns in
  this run: the values of successive calls of \<^verbatim>\<open>rand()\<close>, converted to \<^verbatim>\<open>tibrv_u32\<close>,
  and the two readings of \<^verbatim>\<open>tibrvMsg_GetCurrentTime\<close>, \<^verbatim>\<open>date_time_start\<close> before the
  first request and \<^verbatim>\<open>date_time_stop\<close> after the wait.
\<close>

record config =
  requests :: tibrv_u32
  status_frq :: tibrv_u32
  interval_nonzero :: bool
  rand :: "nat \<Rightarrow> tibrv_u32"
  date_time_start :: tibrvMsgDateTime
  date_time_stop :: tibrvMsgDateTime

text \<open>
  The wait queue holds what the main thread has not yet dispatched: the self-addressed
  \<^verbatim>\<open>TEST.COMPLETED\<close> message and disconnect advisories. The timer event does not exist,
  is live, or has been destroyed. The main thread is in the burst loop with loop variable
  \<open>i\<close>, about to create the timer, at \<^verbatim>\<open>tibrvQueue_Dispatch(wait_queue)\<close>, about to report,
  or past \<^verbatim>\<open>exit(exit_status)\<close>.
\<close>

datatype wait_event = Test_completed | Disconnect_advisory

datatype timer = No_timer | Timer_live | Timer_destroyed

datatype main_pc = Sending tibrv_u32 | Creating_timer | Waiting | Reporting | Done

text \<open>
  The state of a run after discovery and circuit establishment have succeeded: the fields
  of \<^verbatim>\<open>vcRec\<close> that the code reads or writes, the file-scope \<^verbatim>\<open>client_request\<close> and
  \<^verbatim>\<open>timer_event\<close>, the number of \<^verbatim>\<open>rand()\<close> calls made, every message handed to
  \<^verbatim>\<open>tibrvTransport_Send\<close> on \<^verbatim>\<open>vc_transport\<close> and on \<^verbatim>\<open>TIBRV_PROCESS_TRANSPORT\<close>, the
  lines printed, and the exit code once the process has called \<^verbatim>\<open>exit\<close>.
\<close>

record client =
  vc_state :: vcState
  msgs_in :: tibrv_u32
  msgs_out :: tibrv_u32
  client_request :: tibrvMsg
  rand_calls :: nat
  vc_sent :: "tibrvMsg list"
  process_sent :: "tibrvMsg list"
  wait_queue :: "wait_event list"
  timer_event :: timer
  out :: "(stream \<times> line) list"
  pc :: main_pc
  exited :: "nat option"

definition REQUEST_SUBJECT :: string where
  "REQUEST_SUBJECT = ''TIBRV.VC.WORK''"

definition RESPONSE_SUBJECT :: string where
  "RESPONSE_SUBJECT = ''TIBRV.VC.REPLY''"

definition client_init :: "config \<Rightarrow> client" where
  "client_init cfg =
     \<lparr>vc_state = initializing, msgs_in = 0, msgs_out = 0,
      client_request =
        tibrvMsg_SetReplySubject (tibrvMsg_SetSendSubject tibrvMsg_Create REQUEST_SUBJECT)
          RESPONSE_SUBJECT,
      rand_calls = 0, vc_sent = [], process_sent = [], wait_queue = [],
      timer_event = No_timer, out = [],
      pc = (if interval_nonzero cfg then Creating_timer else Sending 0),
      exited = None\<rparr>"

definition print :: "stream \<Rightarrow> line \<Rightarrow> client \<Rightarrow> client" where
  "print f l s = s\<lparr>out := out s @ [(f, l)]\<rparr>"

definition set_msg_data :: "config \<Rightarrow> client \<Rightarrow> client" where
  "set_msg_data cfg s =
     (let x = rand cfg (rand_calls s);
          m1 = tibrvMsg_UpdateU32 (client_request s) ''x'' x;
          y = rand cfg (rand_calls s + 1);
          m2 = tibrvMsg_UpdateU32 m1 ''y'' y;
          sum = x + y;
          m3 = tibrvMsg_UpdateU32 m2 ''sum'' sum
      in s\<lparr>client_request := m3, rand_calls := rand_calls s + 2\<rparr>)"

text \<open>\<^verbatim>\<open>tibrvTransport_Send(vc->vc_transport, client_request)\<close>: the attempt is recorded.\<close>

definition send_on_vc :: "client \<Rightarrow> client" where
  "send_on_vc s = s\<lparr>vc_sent := vc_sent s @ [client_request s]\<rparr>"

text \<open>
  The process transport delivers the sentinel to the listener that \<^verbatim>\<open>main\<close> created for
  \<^verbatim>\<open>TEST.COMPLETED\<close> on \<^verbatim>\<open>wait_queue\<close>.
\<close>

definition allDone :: "client \<Rightarrow> client" where
  "allDone s =
     (let m = tibrvMsg_SetSendSubject (client_request s) ''TEST.COMPLETED''
      in s\<lparr>client_request := m,
            process_sent := process_sent s @ [m],
            wait_queue := wait_queue s @ [Test_completed]\<rparr>)"

definition testcompletedCB :: "client \<Rightarrow> client" where
  "testcompletedCB s = print Stderr Completion_received s"

definition disconnectedVcCallback :: "client \<Rightarrow> client" where
  "disconnectedVcCallback s =
     (let s1 = print Stderr Vc_disconnected s;
          s2 = print Stderr (Status (msgs_out s1) (msgs_in s1)) s1;
          s3 = s2\<lparr>vc_state := disconnected\<rparr>
      in allDone s3)"

definition serverResponse :: "config \<Rightarrow> client \<Rightarrow> client" where
  "serverResponse cfg s =
     (let s1 = s\<lparr>msgs_in := msgs_in s + 1\<rparr>;
          s2 = (if msgs_out s1 = requests cfg \<and> 0 < status_frq cfg
                then (if status_due (status_frq cfg) (msgs_in s1)
                      then print Stderr (Status (msgs_out s1) (msgs_in s1)) s1
                      else s1)
                else s1)
      in if requests cfg \<le> msgs_in s2 then allDone s2 else s2)"

text \<open>
  The timer callback. \<open>return_code\<close> is what \<^verbatim>\<open>tibrvTransport_Send\<close> returns if the
  callback calls it. \<^verbatim>\<open>tibrvEvent_Destroy\<close> succeeds on a live event.
\<close>

definition pubReqMsg :: "config \<Rightarrow> tibrv_status \<Rightarrow> client \<Rightarrow> client" where
  "pubReqMsg cfg return_code s =
     (let s1 = (if msgs_out s < requests cfg
                then (let a = send_on_vc (set_msg_data cfg s)
                      in if return_code \<noteq> TIBRV_OK
                         then (print Stderr Send_failed a)\<lparr>exited := Some 1\<rparr>
                         else a\<lparr>msgs_out := msgs_out a + 1\<rparr>)
                else s)
      in if exited s1 \<noteq> None then s1
         else
          (let s2 = (if 0 < status_frq cfg
                     then (if status_due (status_frq cfg) (msgs_out s1)
                           then print Stdout (Status (msgs_out s1) (msgs_in s1)) s1
                           else s1)
                     else s1)
           in if msgs_out s2 = requests cfg
              then (let s3 = print Stdout (Received_while_sending (msgs_in s2) (msgs_out s2)) s2
                    in if timer_event s3 = Timer_live
                       then s3\<lparr>timer_event := Timer_destroyed\<rparr>
                       else print Stderr Destroy_failed s3)
              else s2))"

text \<open>One pass through the body of the burst loop \<^verbatim>\<open>for (i = 0; i < requests; i++)\<close>.\<close>

definition burst_body :: "config \<Rightarrow> tibrv_status \<Rightarrow> tibrv_u32 \<Rightarrow> client \<Rightarrow> client" where
  "burst_body cfg return_code i s =
     (let a = send_on_vc (set_msg_data cfg s)
      in if return_code \<noteq> TIBRV_OK
         then (print Stderr Send_failed a)\<lparr>exited := Some 1\<rparr>
         else
          (let s1 = a\<lparr>msgs_out := msgs_out a + 1\<rparr>;
               s2 = (if 0 < status_frq cfg
                     then (if status_due (status_frq cfg) (msgs_out s1)
                           then print Stderr (Status (msgs_out s1) (msgs_in s1)) s1
                           else s1)
                     else s1)
           in s2\<lparr>pc := Sending (i + 1)\<rparr>))"

text \<open>
  The statistics report and the end of \<^verbatim>\<open>main\<close>: the branch on
  \<^verbatim>\<open>vc->msgs_in >= requests\<close>, the teardown, and \<^verbatim>\<open>exit(exit_status)\<close>.
\<close>

definition report :: "config \<Rightarrow> client \<Rightarrow> client" where
  "report cfg s =
     (if requests cfg \<le> msgs_in s
      then (let s1 = print Stdout (Received_all (msgs_in s)) s;
                s2 = print Stdout
                       (Took (requests cfg) (date_time_start cfg) (date_time_stop cfg)) s1;
                s3 = print Stdout
                       (Rate (requests cfg) (date_time_start cfg) (date_time_stop cfg)) s2
            in s3\<lparr>pc := Done, exited := Some 0\<rparr>)
      else (let s1 = print Stdout (Received_partial (msgs_in s) (msgs_out s)) s
            in s1\<lparr>pc := Done, exited := Some 1\<rparr>))"

text \<open>
  \<^verbatim>\<open>tibrvQueue_Dispatch(wait_queue)\<close> blocks while the queue is empty; otherwise it runs
  the callback of the first queued event and returns.
\<close>

definition dispatch_wait_queue :: "client \<Rightarrow> client" where
  "dispatch_wait_queue s =
     (case wait_queue s of
        [] \<Rightarrow> s
      | e # q \<Rightarrow>
          (let s1 = s\<lparr>wait_queue := q\<rparr>;
               s2 = (case e of
                       Test_completed \<Rightarrow> testcompletedCB s1
                     | Disconnect_advisory \<Rightarrow> disconnectedVcCallback s1)
           in s2\<lparr>pc := Reporting\<rparr>))"

text \<open>
  One step of the main thread, from \<^verbatim>\<open>if (interval == 0)\<close> on. \<open>return_code\<close> is what
  the library call of this step returns (\<^verbatim>\<open>tibrvTransport_Send\<close> in the burst loop,
  \<^verbatim>\<open>tibrvEvent_CreateTimer\<close> in paced mode).
\<close>

definition main_step :: "config \<Rightarrow> tibrv_status \<Rightarrow> client \<Rightarrow> client" where
  "main_step cfg return_code s =
     (case pc s of
        Sending i \<Rightarrow>
          (if i < requests cfg then burst_body cfg return_code i s
           else (print Stdout (Sent_summary (msgs_out s) (msgs_in s)) s)\<lparr>pc := Waiting\<rparr>)
      | Creating_timer \<Rightarrow>
          (if return_code \<noteq> TIBRV_OK
           then (print Stderr Timer_failed s)\<lparr>exited := Some 1\<rparr>
           else s\<lparr>timer_event := Timer_live, pc := Waiting\<rparr>)
      | Waiting \<Rightarrow> dispatch_wait_queue s
      | Reporting \<Rightarrow> report cfg s
      | Done \<Rightarrow> s)"

text \<open>
  A run is a sequence of events, each handled to completion: a step of the main thread;
  the timer firing on the default queue; a message on the response subject reaching
  \<^verbatim>\<open>serverResponse\<close> on the default queue; a disconnect advisory arriving on the wait
  queue. The timer fires only while it is live, and nothing runs after \<^verbatim>\<open>exit\<close>.
  \<^verbatim>\<open>msgs_in\<close> is written only by the dispatcher thread, \<^verbatim>\<open>vc_state\<close> only by the main
  thread, and \<^verbatim>\<open>msgs_out\<close> by the main thread in burst mode and by the dispatcher thread in
  paced mode.
\<close>

datatype event =
    Main_step tibrv_status
  | Timer_fires tibrv_status
  | Response_arrives
  | Advisory_arrives

definition step :: "config \<Rightarrow> event \<Rightarrow> client \<Rightarrow> client" where
  "step cfg e s =
     (if exited s \<noteq> None then s
      else (case e of
              Main_step return_code \<Rightarrow> main_step cfg return_code s
            | Timer_fires return_code \<Rightarrow>
                (if timer_event s = Timer_live then pubReqMsg cfg return_code s else s)
            | Response_arrives \<Rightarrow> serverResponse cfg s
            | Advisory_arrives \<Rightarrow> s\<lparr>wait_queue := wait_queue s @ [Disconnect_advisory]\<rparr>))"

fun run :: "config \<Rightarrow> client \<Rightarrow> event list \<Rightarrow> client" where
  "run cfg s [] = s"
| "run cfg s (e # es) = run cfg (step cfg e s) es"

definition client_run :: "config \<Rightarrow> event list \<Rightarrow> client" where
  "client_run cfg es = run cfg (client_init cfg) es"

text \<open>
  Observations on a state, read off the records of sends and of printed lines: the number
  of sentinels sent (\<^verbatim>\<open>allDone\<close> is the only sender on the process transport); the number
  of times the disconnect callback has run (it alone prints the disconnect line); the
  number of events the main thread has dispatched from the wait queue (each of the two
  callbacks there prints its line); the sentinels that the collector has sent, which are
  those not sent by the disconnect callback; the number of responses delivered in a run;
  the sent counts of the status lines that the timer callback has printed (it alone prints
  a status line on standard output).
\<close>

definition sentinels :: "client \<Rightarrow> nat" where
  "sentinels s = length (process_sent s)"

definition monitor_fired :: "client \<Rightarrow> nat" where
  "monitor_fired s = length (filter (\<lambda>p. snd p = Vc_disconnected) (out s))"

definition wakeups :: "client \<Rightarrow> nat" where
  "wakeups s =
     length (filter (\<lambda>p. snd p = Vc_disconnected \<or> snd p = Completion_received) (out s))"

definition collector_fired :: "client \<Rightarrow> nat" where
  "collector_fired s = sentinels s - monitor_fired s"

definition responses :: "event list \<Rightarrow> nat" where
  "responses es = length (filter (\<lambda>e. e = Response_arrives) es)"

fun sent_status :: "(stream \<times> line) list \<Rightarrow> tibrv_u32 list" where
  "sent_status [] = []"
| "sent_status ((Stdout, Status n_out n_in) # ls) = n_out # sent_status ls"
| "sent_status (l # ls) = sent_status ls"

definition past_wait :: "main_pc \<Rightarrow> bool" where
  "past_wait p = (p = Reporting \<or> p = Done)"



section \<open>Predicates used in the statements and proofs\<close>

text \<open>
  The request payload as the client builds it: exactly the three fields \<open>x\<close>, \<open>y\<close>
  and \<open>sum\<close>, in this order, with \<open>sum = (x + y) mod 2^32\<close>.
\<close>

definition request_payload :: "tibrvMsg \<Rightarrow> bool" where
  "request_payload m =
     (map fst (msg_fields m) = [''x'', ''y'', ''sum''] \<and>
      (case map_of (msg_fields m) ''x'' of None \<Rightarrow> False | Some x \<Rightarrow>
       case map_of (msg_fields m) ''y'' of None \<Rightarrow> False | Some y \<Rightarrow>
       case map_of (msg_fields m) ''sum'' of None \<Rightarrow> False | Some z \<Rightarrow>
         unat z = (unat x + unat y) mod 2 ^ 32))"

text \<open>
  The invariant behind it: \<^verbatim>\<open>client_request\<close> is either still empty or already such a
  payload, and everything handed to the circuit was one.
\<close>

definition payload_inv :: "client \<Rightarrow> bool" where
  "payload_inv s =
     ((msg_fields (client_request s) = [] \<or> request_payload (client_request s))
      \<and> list_all request_payload (vc_sent s))"

text \<open>
  The main thread has left \<^verbatim>\<open>tibrvQueue_Dispatch(wait_queue)\<close> exactly when one wake-up
  line has been printed; \<^verbatim>\<open>vc_state\<close> is \<open>disconnected\<close> exactly when the disconnect
  callback has run; burst mode has no timer and paced mode no burst loop.
\<close>

definition no_sending :: "main_pc \<Rightarrow> bool" where
  "no_sending p = (case p of Sending i \<Rightarrow> False | _ \<Rightarrow> True)"

definition wake_inv :: "client \<Rightarrow> bool" where
  "wake_inv s = (wakeups s = (if past_wait (pc s) then 1 else 0))"

definition vc_inv :: "client \<Rightarrow> bool" where
  "vc_inv s = ((vc_state s = disconnected) = (0 < monitor_fired s))"

definition mode_inv :: "config \<Rightarrow> client \<Rightarrow> bool" where
  "mode_inv cfg s =
     (if interval_nonzero cfg then no_sending (pc s)
      else timer_event s = No_timer \<and> pc s \<noteq> Creating_timer)"

text \<open>
  While at most \<open>k\<close> further responses can make \<^verbatim>\<open>msgs_in\<close> reach \<^verbatim>\<open>requests\<close>: the
  sentinels sent so far are the monitor's, plus one from the collector once
  \<^verbatim>\<open>msgs_in\<close> has reached a non-zero \<^verbatim>\<open>requests\<close>.
\<close>

definition count_inv :: "config \<Rightarrow> nat \<Rightarrow> client \<Rightarrow> bool" where
  "count_inv cfg k s =
     (unat (msgs_in s) + k \<le> unat (requests cfg)
      \<and> sentinels s =
          monitor_fired s + (if msgs_in s = requests cfg \<and> requests cfg \<noteq> 0 then 1 else 0))"

text \<open>
  Without a response and without a disconnect advisory nothing reaches the wait queue; without
  a disconnect advisory the monitor does not fire.
\<close>

definition quiet_inv :: "client \<Rightarrow> bool" where
  "quiet_inv s = (\<not> past_wait (pc s) \<and> wait_queue s = [] \<and> sentinels s = 0 \<and> monitor_fired s = 0)"

definition no_advisory_inv :: "client \<Rightarrow> bool" where
  "no_advisory_inv s = (Disconnect_advisory \<notin> set (wait_queue s) \<and> monitor_fired s = 0)"

fun is_timer :: "event \<Rightarrow> bool" where
  "is_timer (Timer_fires return_code) = True"
| "is_timer e = False"

text \<open>
  The report: once \<^verbatim>\<open>main\<close> is past it, the exit code and the lines printed follow the
  test \<^verbatim>\<open>vc->msgs_in >= requests\<close>; before it, neither a rate nor a partial-count line
  has been printed and the exit code is not 0.
\<close>

fun report_line :: "line \<Rightarrow> bool" where
  "report_line (Rate n start stop) = True"
| "report_line (Received_partial n_in n_out) = True"
| "report_line l = False"

definition report_inv :: "config \<Rightarrow> client \<Rightarrow> bool" where
  "report_inv cfg s =
     (if pc s = Done
      then exited s = Some (if requests cfg \<le> msgs_in s then 0 else 1)
           \<and> (((Stdout, Rate (requests cfg) (date_time_start cfg) (date_time_stop cfg))
                  \<in> set (out s)) = (requests cfg \<le> msgs_in s))
           \<and> (((Stdout, Received_partial (msgs_in s) (msgs_out s)) \<in> set (out s))
                = (msgs_in s < requests cfg))
      else exited s \<noteq> Some 0 \<and> list_all (\<lambda>p. \<not> report_line (snd p)) (out s))"

text \<open>
  Paced mode: the status lines printed by the timer callback are the multiples of
  \<^verbatim>\<open>status_frq\<close> among the counter values \<open>1, ..., msgs_out\<close> (for \<^verbatim>\<open>requests\<close>
  \<open>= 0\<close>, the single value 0 once the timer has cancelled itself).
\<close>

definition multiples_upto :: "tibrv_u32 \<Rightarrow> tibrv_u32 \<Rightarrow> tibrv_u32 list" where
  "multiples_upto f n = filter (\<lambda>k. k mod f = 0) (map word_of_nat [1..<Suc (unat n)])"

definition expected_status :: "config \<Rightarrow> client \<Rightarrow> tibrv_u32 list" where
  "expected_status cfg s =
     (if requests cfg = 0
      then (if timer_event s = Timer_destroyed then [0] else [])
      else multiples_upto (status_frq cfg) (msgs_out s))"

fun timer_bound :: "tibrv_u32 \<Rightarrow> timer \<Rightarrow> tibrv_u32 \<Rightarrow> bool" where
  "timer_bound n No_timer m = (m = 0)"
| "timer_bound n Timer_live m = (m < n \<or> (n = 0 \<and> m = 0))"
| "timer_bound n Timer_destroyed m = (m = n)"

definition paced_inv :: "config \<Rightarrow> client \<Rightarrow> bool" where
  "paced_inv cfg s =
     (no_sending (pc s)
      \<and> (pc s \<noteq> Creating_timer \<or> timer_event s = No_timer)
      \<and> timer_bound (requests cfg) (timer_event s) (msgs_out s)
      \<and> sent_status (out s) = expected_status cfg s)"


section \<open>Concrete inputs\<close>

text \<open>
A request whose sum wraps around: \<open>4294967295 + 2 = 1\<close> in 32 bits.
\<close>

definition request_wrap :: tibrvMsg where
  "request_wrap =
     \<lparr>send_subject = Some ''_INBOX.server.1'', reply_subject = Some ''TIBRV.VC.REPLY'',
      msg_fields = [(''x'', 4294967295), (''y'', 2), (''sum'', 1)]\<rparr>"

definition server_cfg0 :: server_config where
  "server_cfg0 = \<lparr>new_msg = False, srv_status_frq = 0, inbox_subject = ''_INBOX.server.1''\<rparr>"

text \<open>
  Client configurations: burst mode with \<open>n\<close> requests, and paced mode with \<open>n\<close>
  requests and status frequency \<open>f\<close>. The \<open>k\<close>-th call of \<^verbatim>\<open>rand()\<close> returns \<open>k\<close>,
  and the run takes two and a half seconds.
\<close>

definition burst :: "tibrv_u32 \<Rightarrow> config" where
  "burst n =
     \<lparr>requests = n, status_frq = 0, interval_nonzero = False, rand = word_of_nat,
      date_time_start = \<lparr>sec = 100, nsec = 0\<rparr>,
      date_time_stop = \<lparr>sec = 102, nsec = 500000000\<rparr>\<rparr>"

definition paced :: "tibrv_u32 \<Rightarrow> tibrv_u32 \<Rightarrow> config" where
  "paced n f =
     \<lparr>requests = n, status_frq = f, interval_nonzero = True, rand = word_of_nat,
      date_time_start = \<lparr>sec = 100, nsec = 0\<rparr>,
      date_time_stop = \<lparr>sec = 102, nsec = 500000000\<rparr>\<rparr>"

text \<open>
A burst run of one request whose two \<^verbatim>\<open>rand()\<close> values add up past \<open>2^32\<close>.
\<close>

definition wrapping :: config where
  "wrapping =
     \<lparr>requests = 1, status_frq = 0, interval_nonzero = False,
      rand = (\<lambda>k. if k = 0 then 4294967295 else 2),
      date_time_start = \<lparr>sec = 100, nsec = 0\<rparr>,
      date_time_stop = \<lparr>sec = 102, nsec = 500000000\<rparr>\<rparr>"

text \<open>
  Runs. In \<open>disconnect_then_last_response\<close> the client sends its single request and reaches
  the wait; a disconnect advisory arrives and is dispatched; the response to the request,
  already on its way, is then delivered before \<^verbatim>\<open>main\<close> has torn the listener down.
  In \<open>completion_then_advisory\<close> the response comes first and the advisory after it.
\<close>

definition disconnect_then_last_response :: "event list" where
  "disconnect_then_last_response =
     [Main_step TIBRV_OK, Main_step TIBRV_OK, Advisory_arrives, Main_step TIBRV_OK,
      Response_arrives]"

definition two_responses_to_one_request :: "event list" where
  "two_responses_to_one_request =
     [Main_step TIBRV_OK, Main_step TIBRV_OK, Response_arrives, Response_arrives]"

definition disconnect_before_timer :: "event list" where
  "disconnect_before_timer = [Main_step TIBRV_OK, Advisory_arrives, Main_step TIBRV_OK]"

definition complete_run :: "event list" where
  "complete_run =
     [Main_step TIBRV_OK, Response_arrives, Main_step TIBRV_OK, Main_step TIBRV_OK,
      Main_step TIBRV_OK]"

definition disconnected_run :: "event list" where
  "disconnected_run =
     [Main_step TIBRV_OK, Advisory_arrives, Main_step TIBRV_OK, Main_step TIBRV_OK,
      Main_step TIBRV_OK]"

definition seven_timer_events :: "event list" where
  "seven_timer_events =
     [Main_step TIBRV_OK, Timer_fires TIBRV_OK, Timer_fires TIBRV_OK, Response_arrives,
      Timer_fires TIBRV_OK, Timer_fires TIBRV_OK, Timer_fires TIBRV_OK, Timer_fires TIBRV_OK]"

definition completion_then_advisory :: "event list" where
  "completion_then_advisory =
     [Main_step TIBRV_OK, Main_step TIBRV_OK, Response_arrives, Advisory_arrives,
      Main_step TIBRV_OK, Main_step TIBRV_OK]"

definition burst_disconnected :: "event list" where
  "burst_disconnected =
     [Main_step TIBRV_OK, Main_step TIBRV_OK, Main_step TIBRV_OK, Advisory_arrives,
      Main_step TIBRV_OK]"

definition disconnected_before_report :: "event list" where
  "disconnected_before_report =
     [Main_step TIBRV_OK, Advisory_arrives, Main_step TIBRV_OK, Main_step TIBRV_OK]"

definition advisory_queued :: "event list" where
  "advisory_queued = [Main_step TIBRV_OK, Advisory_arrives, Main_step TIBRV_OK]"

definition one_timer_event :: "event list" where
  "one_timer_event = [Main_step TIBRV_OK, Timer_fires TIBRV_OK]"

definition four_timer_events :: "event list" where
  "four_timer_events =
     [Main_step TIBRV_OK, Timer_fires TIBRV_OK, Timer_fires TIBRV_OK, Timer_fires TIBRV_OK,
      Timer_fires TIBRV_OK]"

section \<open>The server's request callback\<close>

lemma map_of_update_field:
  "map_of (update_field name v fs) = (map_of fs)(name \<mapsto> v)"
  by (induction fs) (auto simp: fun_eq_iff)

lemma GetU32_UpdateU32_same:
  "tibrvMsg_GetU32 (tibrvMsg_UpdateU32 m name v) name = Inr v"
  by (simp add: tibrvMsg_GetU32_def tibrvMsg_UpdateU32_def map_of_update_field)

text \<open>
  C6. For a request that carries the fields \<open>x\<close> and \<open>y\<close> and a reply subject, the
  request callback does not exit: it hands exactly one more message to the transport, that
  message is addressed to the request's reply subject, and its field \<open>sum\<close> is \<open>x + y\<close>
  in 32-bit unsigned arithmetic, that is \<open>(x + y) mod 2^32\<close>. This holds whether
  \<^verbatim>\<open>new_msg\<close> is true (a fresh reply message) or false (the request updated in place).
\<close>

theorem requestCallback_replies_sum:
  assumes "tibrvMsg_GetU32 message ''x'' = Inr x"
    and "tibrvMsg_GetU32 message ''y'' = Inr y"
    and "reply_subject message = Some r"
  shows "\<exists>s' reply. requestCallback cfg message s = Inr s'
           \<and> srv_sent s' = srv_sent s @ [reply]
           \<and> send_subject reply = Some r
           \<and> tibrvMsg_GetU32 reply ''sum'' = Inr (x + y)
           \<and> unat (x + y) = (unat x + unat y) mod 2 ^ 32"
proof (cases "new_msg cfg")
  case True
  let ?reply = "(tibrvMsg_UpdateU32 tibrvMsg_Create ''sum'' (x + y))\<lparr>send_subject := Some r\<rparr>"
  have sum: "tibrvMsg_GetU32 ?reply ''sum'' = Inr (x + y)"
    by (simp add: tibrvMsg_GetU32_def tibrvMsg_UpdateU32_def map_of_update_field)
  have "requestCallback cfg message s =
          Inr (s\<lparr>srv_requests := srv_requests s + 1,
                 srv_sent := srv_sent s @ [?reply],
                 srv_out := srv_out s @
                   (if 0 < srv_status_frq cfg \<and> status_due (srv_status_frq cfg) (srv_requests s + 1)
                    then [Requests_processed (srv_requests s + 1)] else [])\<rparr>)"
    using assms True
    by (simp add: requestCallback_def tibrvTransport_SendReply_def Let_def)
  with sum show ?thesis
    by (simp add: unat_word_ariths)
next
  case False
  let ?reply = "(tibrvMsg_UpdateU32 message ''sum'' (x + y))\<lparr>send_subject := Some r\<rparr>"
  have sum: "tibrvMsg_GetU32 ?reply ''sum'' = Inr (x + y)"
    by (simp add: tibrvMsg_GetU32_def tibrvMsg_UpdateU32_def map_of_update_field)
  have "requestCallback cfg message s =
          Inr (s\<lparr>srv_requests := srv_requests s + 1,
                 srv_sent := srv_sent s @ [?reply],
                 srv_out := srv_out s @
                   (if 0 < srv_status_frq cfg \<and> status_due (srv_status_frq cfg) (srv_requests s + 1)
                    then [Requests_processed (srv_requests s + 1)] else [])\<rparr>)"
    using assms False
    by (simp add: requestCallback_def tibrvTransport_SendReply_def tibrvMsg_UpdateU32_def Let_def)
  with sum show ?thesis
    by (simp add: unat_word_ariths)
qed

theorem requestCallback_replies_sum_witness:
  "tibrvMsg_GetU32 request_wrap ''x'' = Inr 4294967295
   \<and> tibrvMsg_GetU32 request_wrap ''y'' = Inr 2
   \<and> reply_subject request_wrap = Some ''TIBRV.VC.REPLY''
   \<and> (\<exists>s' reply. requestCallback server_cfg0 request_wrap server_init = Inr s'
           \<and> srv_sent s' = srv_sent server_init @ [reply]
           \<and> send_subject reply = Some ''TIBRV.VC.REPLY''
           \<and> tibrvMsg_GetU32 reply ''sum'' = Inr (4294967295 + 2)
           \<and> unat (4294967295 + 2 :: tibrv_u32) = 1)"
proof -
  have x: "tibrvMsg_GetU32 request_wrap ''x'' = Inr 4294967295"
    by (simp add: tibrvMsg_GetU32_def request_wrap_def)
  have y: "tibrvMsg_GetU32 request_wrap ''y'' = Inr 2"
    by (simp add: tibrvMsg_GetU32_def request_wrap_def)
  have r: "reply_subject request_wrap = Some ''TIBRV.VC.REPLY''"
    by (simp add: request_wrap_def)
  show ?thesis
    using x y r requestCallback_replies_sum [OF x y r, of server_cfg0 server_init] by simp
qed


section \<open>The server's idle timeout\<close>

lemma server_loop_append_running:
  "fst (server_loop cfg ds s) = None \<Longrightarrow>
     server_loop cfg (ds @ ds') s = server_loop cfg ds' (snd (server_loop cfg ds s))"
  by (induction cfg ds s rule: server_loop.induct) (auto split: sum.splits if_splits)

text \<open>
  C7, as the code has it. When \<^verbatim>\<open>tibrvQueue_TimedDispatch\<close> returns \<^verbatim>\<open>TIBRV_TIMEOUT\<close>
  while the server is in its dispatch loop, the server leaves the loop without another
  dispatch (whatever is queued afterwards is never looked at), prints the timeout line and
  the count of processed requests, and the process ends with \<^verbatim>\<open>exit(0)\<close>.
\<close>

theorem server_timeout_exits_zero:
  assumes "fst (server_loop cfg ds s) = None"
  shows "server_loop cfg (ds @ Returned TIBRV_TIMEOUT # ds') s =
           (Some 0,
            (snd (server_loop cfg ds s))
              \<lparr>srv_out := srv_out (snd (server_loop cfg ds s)) @
                 [Dispatch_timeout, Requests_processed (srv_requests (snd (server_loop cfg ds s)))]\<rparr>)"
  using assms by (simp add: server_loop_append_running)

theorem server_timeout_exits_zero_witness:
  "fst (server_loop server_cfg0 [Dispatched (Work_request request_wrap)] server_init) = None
   \<and> fst (server_loop server_cfg0
         ([Dispatched (Work_request request_wrap)] @ Returned TIBRV_TIMEOUT
            # [Dispatched (Work_request request_wrap)]) server_init) = Some 0"
proof -
  have h: "fst (server_loop server_cfg0 [Dispatched (Work_request request_wrap)] server_init) = None"
    by (simp add: server_cfg0_def request_wrap_def server_init_def requestCallback_def
        tibrvMsg_GetU32_def tibrvMsg_UpdateU32_def tibrvTransport_SendReply_def Let_def)
  show ?thesis
    using h server_timeout_exits_zero [OF h, of "[Dispatched (Work_request request_wrap)]"]
    by simp
qed

text \<open>
  The claim that an idle timeout ends the process with a non-zero exit code fails: a server
  whose first dispatch times out exits with code 0.
\<close>

theorem server_idle_timeout_counterexample:
  "fst (server_main server_cfg0 [Returned TIBRV_TIMEOUT]) = Some 0"
  by (simp add: server_main_def)


section \<open>The discovery subjects\<close>

text \<open>
  The subject on which \<^verbatim>\<open>tibrvvcclient.c\<close> broadcasts its locate request is not the
  subject on which the search listener of \<^verbatim>\<open>tibrvserver.c\<close> listens.
\<close>

theorem search_subjects_differ_counterexample:
  "client_SEARCH_SUBJECT \<noteq> server_SEARCH_SUBJECT"
  by (simp add: client_SEARCH_SUBJECT_def server_SEARCH_SUBJECT_def)

text \<open>
  C8, as the code has it. \<^verbatim>\<open>tibrvserver.c\<close> listens on \<open>TIBRV.LOCATE\<close>, the search
  subject of \<^verbatim>\<open>tibrvclient.c\<close>; the virtual-circuit client searches on
  \<open>TIBRV.VC.LOCATE\<close>.
\<close>

theorem search_subjects:
  "server_SEARCH_SUBJECT = tibrvclient_SEARCH_SUBJECT
   \<and> client_SEARCH_SUBJECT = ''TIBRV.VC.LOCATE''
   \<and> server_SEARCH_SUBJECT = ''TIBRV.LOCATE''"
  by (simp add: client_SEARCH_SUBJECT_def server_SEARCH_SUBJECT_def tibrvclient_SEARCH_SUBJECT_def)


section \<open>Runs of the client: general lemmas\<close>

lemma run_invariant:
  assumes "P s" and "\<And>s e. P s \<Longrightarrow> P (step cfg e s)"
  shows "P (run cfg s es)"
  using assms(1)
proof (induction es arbitrary: s)
  case Nil
  then show ?case by simp
next
  case (Cons e es)
  then show ?case by (simp add: assms(2))
qed

lemma run_snoc: "run cfg s (es @ [e]) = step cfg e (run cfg s es)"
  by (induction es arbitrary: s) simp_all

lemma step_exited [simp]: "exited s \<noteq> None \<Longrightarrow> step cfg e s = s"
  by (simp add: step_def)

lemma step_running:
  "exited s = None \<Longrightarrow>
     step cfg e s =
       (case e of
          Main_step rc \<Rightarrow> main_step cfg rc s
        | Timer_fires rc \<Rightarrow> (if timer_event s = Timer_live then pubReqMsg cfg rc s else s)
        | Response_arrives \<Rightarrow> serverResponse cfg s
        | Advisory_arrives \<Rightarrow> s\<lparr>wait_queue := wait_queue s @ [Disconnect_advisory]\<rparr>)"
  by (simp add: step_def)

text \<open>
What each primitive operation leaves alone.
\<close>

lemma set_msg_data_frame [simp]:
  "vc_sent (set_msg_data cfg s) = vc_sent s"
  "exited (set_msg_data cfg s) = exited s"
  "pc (set_msg_data cfg s) = pc s"
  "msgs_in (set_msg_data cfg s) = msgs_in s"
  "msgs_out (set_msg_data cfg s) = msgs_out s"
  "out (set_msg_data cfg s) = out s"
  "timer_event (set_msg_data cfg s) = timer_event s"
  "wait_queue (set_msg_data cfg s) = wait_queue s"
  "process_sent (set_msg_data cfg s) = process_sent s"
  "vc_state (set_msg_data cfg s) = vc_state s"
  by (simp_all add: set_msg_data_def Let_def)

lemma send_on_vc_frame [simp]:
  "vc_sent (send_on_vc s) = vc_sent s @ [client_request s]"
  "client_request (send_on_vc s) = client_request s"
  "exited (send_on_vc s) = exited s"
  "pc (send_on_vc s) = pc s"
  "msgs_in (send_on_vc s) = msgs_in s"
  "msgs_out (send_on_vc s) = msgs_out s"
  "out (send_on_vc s) = out s"
  "timer_event (send_on_vc s) = timer_event s"
  "wait_queue (send_on_vc s) = wait_queue s"
  "process_sent (send_on_vc s) = process_sent s"
  "vc_state (send_on_vc s) = vc_state s"
  by (simp_all add: send_on_vc_def)

lemma print_frame [simp]:
  "out (print f l s) = out s @ [(f, l)]"
  "vc_sent (print f l s) = vc_sent s"
  "client_request (print f l s) = client_request s"
  "exited (print f l s) = exited s"
  "pc (print f l s) = pc s"
  "msgs_in (print f l s) = msgs_in s"
  "msgs_out (print f l s) = msgs_out s"
  "timer_event (print f l s) = timer_event s"
  "wait_queue (print f l s) = wait_queue s"
  "process_sent (print f l s) = process_sent s"
  "vc_state (print f l s) = vc_state s"
  by (simp_all add: print_def)

lemma allDone_frame [simp]:
  "process_sent (allDone s) =
     process_sent s @ [tibrvMsg_SetSendSubject (client_request s) ''TEST.COMPLETED'']"
  "wait_queue (allDone s) = wait_queue s @ [Test_completed]"
  "client_request (allDone s) = tibrvMsg_SetSendSubject (client_request s) ''TEST.COMPLETED''"
  "out (allDone s) = out s"
  "vc_sent (allDone s) = vc_sent s"
  "exited (allDone s) = exited s"
  "pc (allDone s) = pc s"
  "msgs_in (allDone s) = msgs_in s"
  "msgs_out (allDone s) = msgs_out s"
  "timer_event (allDone s) = timer_event s"
  "vc_state (allDone s) = vc_state s"
  by (simp_all add: allDone_def Let_def)

lemma sentinels_simps [simp]:
  "sentinels (allDone s) = Suc (sentinels s)"
  "sentinels (print f l s) = sentinels s"
  "sentinels (send_on_vc s) = sentinels s"
  "sentinels (set_msg_data cfg s) = sentinels s"
  "sentinels (s\<lparr>pc := p\<rparr>) = sentinels s"
  "sentinels (s\<lparr>exited := x\<rparr>) = sentinels s"
  "sentinels (s\<lparr>msgs_in := a\<rparr>) = sentinels s"
  "sentinels (s\<lparr>msgs_out := b\<rparr>) = sentinels s"
  "sentinels (s\<lparr>timer_event := t\<rparr>) = sentinels s"
  "sentinels (s\<lparr>wait_queue := q\<rparr>) = sentinels s"
  "sentinels (s\<lparr>vc_state := v\<rparr>) = sentinels s"
  by (simp_all add: sentinels_def)

lemma monitor_fired_simps [simp]:
  "monitor_fired (allDone s) = monitor_fired s"
  "monitor_fired (print f l s) = (if l = Vc_disconnected then Suc (monitor_fired s) else monitor_fired s)"
  "monitor_fired (send_on_vc s) = monitor_fired s"
  "monitor_fired (set_msg_data cfg s) = monitor_fired s"
  "monitor_fired (s\<lparr>pc := p\<rparr>) = monitor_fired s"
  "monitor_fired (s\<lparr>exited := x\<rparr>) = monitor_fired s"
  "monitor_fired (s\<lparr>msgs_in := a\<rparr>) = monitor_fired s"
  "monitor_fired (s\<lparr>msgs_out := b\<rparr>) = monitor_fired s"
  "monitor_fired (s\<lparr>timer_event := t\<rparr>) = monitor_fired s"
  "monitor_fired (s\<lparr>wait_queue := q\<rparr>) = monitor_fired s"
  "monitor_fired (s\<lparr>vc_state := v\<rparr>) = monitor_fired s"
  by (simp_all add: monitor_fired_def)

lemma wakeups_simps [simp]:
  "wakeups (allDone s) = wakeups s"
  "wakeups (print f l s) =
     (if l = Vc_disconnected \<or> l = Completion_received then Suc (wakeups s) else wakeups s)"
  "wakeups (send_on_vc s) = wakeups s"
  "wakeups (set_msg_data cfg s) = wakeups s"
  "wakeups (s\<lparr>pc := p\<rparr>) = wakeups s"
  "wakeups (s\<lparr>exited := x\<rparr>) = wakeups s"
  "wakeups (s\<lparr>msgs_in := a\<rparr>) = wakeups s"
  "wakeups (s\<lparr>msgs_out := b\<rparr>) = wakeups s"
  "wakeups (s\<lparr>timer_event := t\<rparr>) = wakeups s"
  "wakeups (s\<lparr>wait_queue := q\<rparr>) = wakeups s"
  "wakeups (s\<lparr>vc_state := v\<rparr>) = wakeups s"
  by (simp_all add: wakeups_def)

lemma past_wait_simps [simp]:
  "past_wait (Sending i) = False"
  "past_wait Creating_timer = False"
  "past_wait Waiting = False"
  "past_wait Reporting = True"
  "past_wait Done = True"
  by (simp_all add: past_wait_def)

lemmas callback_defs =
  main_step_def burst_body_def pubReqMsg_def serverResponse_def
  dispatch_wait_queue_def disconnectedVcCallback_def testcompletedCB_def report_def

lemmas run_defs =
  client_run_def client_init_def step_def main_step_def burst_body_def pubReqMsg_def
  serverResponse_def dispatch_wait_queue_def disconnectedVcCallback_def testcompletedCB_def
  allDone_def report_def set_msg_data_def send_on_vc_def print_def status_due_def
  tibrvMsg_Create_def tibrvMsg_SetSendSubject_def tibrvMsg_SetReplySubject_def
  tibrvMsg_UpdateU32_def burst_def paced_def Let_def

text \<open>
Unsigned 32-bit facts: incrementing below a bound, and the status test.
\<close>

lemma inc_facts:
  fixes a n :: tibrv_u32
  assumes "unat a + 1 + k \<le> unat n"
  shows "unat (a + 1) = unat a + 1" and "a \<noteq> n" and "(n \<le> a + 1) = (a + 1 = n)" and "n \<noteq> 0"
proof -
  have "unat n < 2 ^ 32" using unsigned_less [of n, where ?'a = nat] by simp
  with assms have "unat a + 1 < 2 ^ 32" by simp
  then show u: "unat (a + 1) = unat a + 1"
    by (simp add: unat_word_ariths)
  from assms show "a \<noteq> n" by auto
  from assms show "n \<noteq> 0" by auto
  show "(n \<le> a + 1) = (a + 1 = n)"
    using assms u by (auto simp: word_le_nat_alt word_unat_eq_iff)
qed

lemma status_due_iff:
  "status_due f m = (m mod f = 0)"
proof -
  have "(m div f) * f + m mod f = m" by (rule word_mod_div_equality)
  then show ?thesis
    unfolding status_due_def by (metis add.right_neutral add_left_cancel)
qed


section \<open>The request payload\<close>

lemma msg_fields_subject [simp]:
  "msg_fields (tibrvMsg_SetSendSubject m subj) = msg_fields m"
  by (simp add: tibrvMsg_SetSendSubject_def)

lemma request_payload_subject [simp]:
  "request_payload (tibrvMsg_SetSendSubject m subj) = request_payload m"
  by (simp only: request_payload_def msg_fields_subject)

lemma three_fields:
  assumes "map fst fs = [a, b, c]"
  obtains x y z where "fs = [(a, x), (b, y), (c, z)]"
proof -
  from assms obtain p q r where "fs = [p, q, r]" "fst p = a" "fst q = b" "fst r = c"
    by (auto simp: map_eq_Cons_conv)
  then have "fs = [(a, snd p), (b, snd q), (c, snd r)]"
    by (simp add: prod_eq_iff)
  then show ?thesis by (rule that)
qed

lemma request_payloadE:
  assumes "request_payload m"
  obtains x y z where "msg_fields m = [(''x'', x), (''y'', y), (''sum'', z)]"
proof -
  from assms have "map fst (msg_fields m) = [''x'', ''y'', ''sum'']"
    by (simp add: request_payload_def)
  then show ?thesis by (rule three_fields) (rule that)
qed

lemma set_msg_data_payload:
  assumes "msg_fields (client_request s) = [] \<or> request_payload (client_request s)"
  shows "request_payload (client_request (set_msg_data cfg s))"
  using assms
proof
  assume "msg_fields (client_request s) = []"
  then show ?thesis
    by (simp add: set_msg_data_def tibrvMsg_UpdateU32_def request_payload_def Let_def
        unat_word_ariths)
next
  assume "request_payload (client_request s)"
  then obtain x y z where "msg_fields (client_request s) = [(''x'', x), (''y'', y), (''sum'', z)]"
    by (rule request_payloadE)
  then show ?thesis
    by (simp add: set_msg_data_def tibrvMsg_UpdateU32_def request_payload_def Let_def
        unat_word_ariths)
qed

lemma payload_inv_allDone [simp]: "payload_inv (allDone s) = payload_inv s"
  by (simp add: payload_inv_def allDone_def Let_def)

lemma payload_inv_upd [simp]:
  "payload_inv (s\<lparr>pc := p\<rparr>) = payload_inv s"
  "payload_inv (s\<lparr>exited := x\<rparr>) = payload_inv s"
  "payload_inv (s\<lparr>msgs_in := a\<rparr>) = payload_inv s"
  "payload_inv (s\<lparr>msgs_out := b\<rparr>) = payload_inv s"
  "payload_inv (s\<lparr>out := l\<rparr>) = payload_inv s"
  "payload_inv (s\<lparr>timer_event := t\<rparr>) = payload_inv s"
  "payload_inv (s\<lparr>wait_queue := q\<rparr>) = payload_inv s"
  "payload_inv (s\<lparr>vc_state := v\<rparr>) = payload_inv s"
  by (simp_all add: payload_inv_def)

lemma payload_inv_print [simp]: "payload_inv (print f l s) = payload_inv s"
  by (simp add: print_def)

lemma payload_inv_send [simp]:
  "payload_inv s \<Longrightarrow> payload_inv (send_on_vc (set_msg_data cfg s))"
  by (simp add: payload_inv_def send_on_vc_def set_msg_data_payload)

lemma payload_inv_pubReqMsg: "payload_inv s \<Longrightarrow> payload_inv (pubReqMsg cfg rc s)"
  by (simp add: pubReqMsg_def Let_def)

lemma payload_inv_serverResponse: "payload_inv s \<Longrightarrow> payload_inv (serverResponse cfg s)"
  by (simp add: serverResponse_def Let_def)

lemma payload_inv_main_step: "payload_inv s \<Longrightarrow> payload_inv (main_step cfg rc s)"
  by (simp add: main_step_def burst_body_def dispatch_wait_queue_def report_def
      testcompletedCB_def disconnectedVcCallback_def Let_def
      split: main_pc.splits list.splits wait_event.splits)

lemma payload_inv_step: "payload_inv s \<Longrightarrow> payload_inv (step cfg e s)"
  by (simp add: step_def payload_inv_pubReqMsg payload_inv_serverResponse
      payload_inv_main_step split: event.splits)

lemma payload_inv_init: "payload_inv (client_init cfg)"
  by (simp add: payload_inv_def client_init_def tibrvMsg_Create_def
      tibrvMsg_SetSendSubject_def tibrvMsg_SetReplySubject_def)

text \<open>
  C10. Every message that the client hands to \<^verbatim>\<open>tibrvTransport_Send\<close> on the virtual
  circuit, in burst mode and in paced mode, carries exactly the three fields \<open>x\<close>,
  \<open>y\<close> and \<open>sum\<close>, and its \<open>sum\<close> is \<open>(x + y) mod 2^32\<close>: the client has set it
  before the message leaves.
\<close>

theorem sent_requests_carry_sum:
  "list_all request_payload (vc_sent (client_run cfg es))"
proof -
  have "payload_inv (client_run cfg es)"
    unfolding client_run_def
    by (rule run_invariant [where P = payload_inv]) (simp_all add: payload_inv_init payload_inv_step)
  then show ?thesis by (simp add: payload_inv_def)
qed

text \<open>
The request of a one-request burst run, with a sum that wraps around.
\<close>

theorem sent_requests_carry_sum_witness:
  "vc_sent (client_run wrapping [Main_step TIBRV_OK]) =
     [\<lparr>send_subject = Some ''TIBRV.VC.WORK'', reply_subject = Some ''TIBRV.VC.REPLY'',
       msg_fields = [(''x'', 4294967295), (''y'', 2), (''sum'', 1)]\<rparr>]
   \<and> list_all request_payload (vc_sent (client_run wrapping [Main_step TIBRV_OK]))"
proof -
  have "vc_sent (client_run wrapping [Main_step TIBRV_OK]) =
     [\<lparr>send_subject = Some ''TIBRV.VC.WORK'', reply_subject = Some ''TIBRV.VC.REPLY'',
       msg_fields = [(''x'', 4294967295), (''y'', 2), (''sum'', 1)]\<rparr>]"
    by (simp add: wrapping_def REQUEST_SUBJECT_def RESPONSE_SUBJECT_def run_defs)
  with sent_requests_carry_sum [of wrapping "[Main_step TIBRV_OK]"] show ?thesis
    by simp
qed


section \<open>Wake-ups, the disconnect callback and the two modes\<close>

lemma wake_inv_step: "wake_inv s \<Longrightarrow> wake_inv (step cfg e s)"
  by (cases "exited s = None")
     (simp_all add: step_running wake_inv_def callback_defs Let_def
        split: event.splits main_pc.splits list.splits wait_event.splits)

lemma vc_inv_step: "vc_inv s \<Longrightarrow> vc_inv (step cfg e s)"
  by (cases "exited s = None")
     (simp_all add: step_running vc_inv_def callback_defs Let_def
        split: event.splits main_pc.splits list.splits wait_event.splits)

lemma mode_inv_step: "mode_inv cfg s \<Longrightarrow> mode_inv cfg (step cfg e s)"
  by (cases "exited s = None"; cases "interval_nonzero cfg")
     (simp_all add: step_running mode_inv_def callback_defs no_sending_def Let_def
        split: event.splits main_pc.splits list.splits wait_event.splits)

lemma wake_inv_run: "wake_inv (client_run cfg es)"
  unfolding client_run_def
  by (rule run_invariant [where P = wake_inv])
     (simp_all add: wake_inv_step, simp add: wake_inv_def client_init_def wakeups_def)

lemma vc_inv_run: "vc_inv (client_run cfg es)"
  unfolding client_run_def
  by (rule run_invariant [where P = vc_inv])
     (simp_all add: vc_inv_step, simp add: vc_inv_def client_init_def monitor_fired_def)

lemma mode_inv_run: "mode_inv cfg (client_run cfg es)"
  unfolding client_run_def
  by (rule run_invariant [where P = "mode_inv cfg"])
     (simp_all add: mode_inv_step, simp add: mode_inv_def client_init_def no_sending_def)

lemma monitor_le_wakeups: "monitor_fired s \<le> wakeups s"
proof -
  have "length (filter (\<lambda>p. snd p = Vc_disconnected) ls)
          \<le> length (filter (\<lambda>p. snd p = Vc_disconnected \<or> snd p = Completion_received) ls)"
    for ls :: "(stream \<times> line) list"
    by (induction ls) simp_all
  then show ?thesis by (simp add: monitor_fired_def wakeups_def)
qed

lemma wakeups_le_1: "wakeups (client_run cfg es) \<le> 1"
  using wake_inv_run [of cfg es] by (simp add: wake_inv_def)

lemma monitor_le_1: "monitor_fired (client_run cfg es) \<le> 1"
  using monitor_le_wakeups [of "client_run cfg es"] wakeups_le_1 [of cfg es] by simp


section \<open>Counting responses and sentinels\<close>

lemma serverResponse_effect:
  "msgs_in (serverResponse cfg s) = msgs_in s + 1"
  "monitor_fired (serverResponse cfg s) = monitor_fired s"
  "sentinels (serverResponse cfg s) =
     sentinels s + (if requests cfg \<le> msgs_in s + 1 then 1 else 0)"
  by (simp_all add: serverResponse_def Let_def)

lemma other_msgs_in:
  "e \<noteq> Response_arrives \<Longrightarrow> msgs_in (step cfg e s) = msgs_in s"
  by (cases "exited s = None")
     (simp_all add: step_running callback_defs Let_def
        split: event.splits main_pc.splits list.splits wait_event.splits)

lemma other_sentinels:
  "e \<noteq> Response_arrives \<Longrightarrow>
     sentinels (step cfg e s) + monitor_fired s = sentinels s + monitor_fired (step cfg e s)"
  by (cases "exited s = None")
     (simp_all add: step_running callback_defs Let_def
        split: event.splits main_pc.splits list.splits wait_event.splits)

lemma count_inv_step:
  assumes "count_inv cfg (k + (if e = Response_arrives then 1 else 0)) s"
  shows "count_inv cfg k (step cfg e s)"
proof (cases "e = Response_arrives")
  case False
  from False have "msgs_in (step cfg e s) = msgs_in s"
    by (rule other_msgs_in)
  moreover from False
  have "sentinels (step cfg e s) + monitor_fired s = sentinels s + monitor_fired (step cfg e s)"
    by (rule other_sentinels)
  ultimately show ?thesis
    using assms False unfolding count_inv_def by (simp split: if_splits)
next
  case True
  show ?thesis
  proof (cases "exited s = None")
    case False
    with assms True show ?thesis by (simp add: count_inv_def)
  next
    case running: True
    from assms True have le: "unat (msgs_in s) + 1 + k \<le> unat (requests cfg)"
      by (simp add: count_inv_def)
    note f = inc_facts [OF le]
    from assms True f(2) have old: "sentinels s = monitor_fired s"
      by (simp add: count_inv_def)
    have step: "step cfg e s = serverResponse cfg s"
      using True running by (simp add: step_running)
    from le f have "unat (msgs_in s + 1) + k \<le> unat (requests cfg)" by simp
    moreover have "sentinels (serverResponse cfg s) =
        monitor_fired (serverResponse cfg s) +
          (if msgs_in (serverResponse cfg s) = requests cfg \<and> requests cfg \<noteq> 0 then 1 else 0)"
      using old f(3) f(4) by (simp add: serverResponse_effect)
    ultimately show ?thesis
      by (simp add: step count_inv_def serverResponse_effect)
  qed
qed

lemma responses_Cons:
  "responses (e # es) = (if e = Response_arrives then 1 else 0) + responses es"
  by (simp add: responses_def)

lemma count_inv_run:
  "count_inv cfg (k + responses es) s \<Longrightarrow> count_inv cfg k (run cfg s es)"
proof (induction es arbitrary: s)
  case Nil
  then show ?case by (simp add: responses_def)
next
  case (Cons e es)
  have "k + responses (e # es) = (k + responses es) + (if e = Response_arrives then 1 else 0)"
    by (simp add: responses_Cons)
  with Cons.prems
  have "count_inv cfg ((k + responses es) + (if e = Response_arrives then 1 else 0)) s"
    by simp
  then have "count_inv cfg (k + responses es) (step cfg e s)"
    by (rule count_inv_step)
  then show ?case by (simp add: Cons.IH)
qed

lemma count_inv_client_run:
  assumes "responses es \<le> unat (requests cfg)"
  shows "count_inv cfg 0 (client_run cfg es)"
proof -
  have "count_inv cfg (0 + responses es) (client_init cfg)"
    using assms by (auto simp: count_inv_def client_init_def sentinels_def monitor_fired_def)
  then show ?thesis
    unfolding client_run_def by (rule count_inv_run)
qed

lemma no_advisory_inv_step:
  "no_advisory_inv s \<Longrightarrow> e \<noteq> Advisory_arrives \<Longrightarrow> no_advisory_inv (step cfg e s)"
  by (cases "exited s = None")
     (auto simp: step_running no_advisory_inv_def callback_defs Let_def
        split: event.splits main_pc.splits list.splits wait_event.splits)

lemma no_advisory_inv_run:
  "no_advisory_inv s \<Longrightarrow> Advisory_arrives \<notin> set es \<Longrightarrow> no_advisory_inv (run cfg s es)"
proof (induction es arbitrary: s)
  case Nil
  then show ?case by simp
next
  case (Cons e es)
  from Cons.prems have "e \<noteq> Advisory_arrives" by auto
  with Cons.prems(1) have "no_advisory_inv (step cfg e s)" by (simp add: no_advisory_inv_step)
  with Cons.IH Cons.prems show ?case by simp
qed

lemma monitor_le_sentinels_step:
  assumes "monitor_fired s \<le> sentinels s"
  shows "monitor_fired (step cfg e s) \<le> sentinels (step cfg e s)"
proof (cases "e = Response_arrives \<and> exited s = None")
  case True
  with assms show ?thesis
    by (simp add: step_running serverResponse_effect)
next
  case False
  show ?thesis
  proof (cases "e = Response_arrives")
    case True
    with False assms show ?thesis by simp
  next
    case other: False
    then have "sentinels (step cfg e s) + monitor_fired s
                 = sentinels s + monitor_fired (step cfg e s)"
      by (rule other_sentinels)
    with assms show ?thesis by simp
  qed
qed

lemma monitor_le_sentinels: "monitor_fired (client_run cfg es) \<le> sentinels (client_run cfg es)"
  unfolding client_run_def
  by (rule run_invariant [where P = "\<lambda>s. monitor_fired s \<le> sentinels s"])
     (simp_all add: monitor_le_sentinels_step, simp add: client_init_def monitor_fired_def)

text \<open>
  C1, as the code has it. \<^verbatim>\<open>allDone\<close> has no once-only guard. Per run the session
  monitor fires at most once and the main thread is woken at most once (it dispatches one
  event of the wait queue, the first; a later event there is never dispatched). When at
  most \<^verbatim>\<open>requests\<close> responses are delivered, the number of sentinels sent is exactly
  the number of times the monitor has fired, plus one once \<^verbatim>\<open>msgs_in\<close> has reached a
  non-zero \<^verbatim>\<open>requests\<close>. So the sentinel is sent at most once in every such run in
  which the monitor has not fired or the responses are not complete, whether or not an
  advisory has arrived; it is sent twice exactly when both have happened.
\<close>

theorem sentinel_sends:
  "monitor_fired (client_run cfg es) \<le> 1
   \<and> wakeups (client_run cfg es) \<le> 1
   \<and> (responses es \<le> unat (requests cfg) \<longrightarrow>
        sentinels (client_run cfg es) =
          monitor_fired (client_run cfg es)
          + (if msgs_in (client_run cfg es) = requests cfg \<and> requests cfg \<noteq> 0 then 1 else 0))
   \<and> (responses es \<le> unat (requests cfg)
        \<and> (monitor_fired (client_run cfg es) = 0 \<or> msgs_in (client_run cfg es) \<noteq> requests cfg)
        \<longrightarrow> sentinels (client_run cfg es) \<le> 1)
   \<and> (responses es < unat (requests cfg) \<longrightarrow>
        sentinels (client_run cfg es) = monitor_fired (client_run cfg es))
   \<and> (responses es \<le> unat (requests cfg) \<and> Advisory_arrives \<notin> set es \<longrightarrow>
        sentinels (client_run cfg es) \<le> 1 \<and> monitor_fired (client_run cfg es) = 0)"
proof -
  let ?s = "client_run cfg es"
  have m1: "monitor_fired ?s \<le> 1" by (rule monitor_le_1)
  have w1: "wakeups ?s \<le> 1" by (rule wakeups_le_1)
  have exact: "sentinels ?s =
          monitor_fired ?s + (if msgs_in ?s = requests cfg \<and> requests cfg \<noteq> 0 then 1 else 0)"
    if "responses es \<le> unat (requests cfg)"
    using count_inv_client_run [OF that] by (simp add: count_inv_def)
  have once: "sentinels ?s \<le> 1"
    if "responses es \<le> unat (requests cfg)"
      and "monitor_fired ?s = 0 \<or> msgs_in ?s \<noteq> requests cfg"
    using exact [OF that(1)] that(2) m1 by (auto split: if_splits)
  have below: "sentinels ?s = monitor_fired ?s" if "responses es < unat (requests cfg)"
  proof -
    from that have "count_inv cfg (1 + responses es) (client_init cfg)"
      by (auto simp: count_inv_def client_init_def sentinels_def monitor_fired_def)
    then have "count_inv cfg 1 ?s"
      unfolding client_run_def by (rule count_inv_run)
    then show ?thesis by (auto simp: count_inv_def)
  qed
  have quiet: "sentinels ?s \<le> 1 \<and> monitor_fired ?s = 0"
    if "responses es \<le> unat (requests cfg) \<and> Advisory_arrives \<notin> set es"
  proof -
    have "no_advisory_inv (client_init cfg)"
      by (simp add: no_advisory_inv_def client_init_def monitor_fired_def)
    with that have "no_advisory_inv ?s"
      unfolding client_run_def by (simp add: no_advisory_inv_run)
    then have "monitor_fired ?s = 0" by (simp add: no_advisory_inv_def)
    with once that show ?thesis by simp
  qed
  from m1 w1 exact once below quiet show ?thesis by blast
qed

text \<open>
  A run in which the collector completes first and a disconnect advisory arrives later:
  the main thread dispatches the sentinel, the advisory is never dispatched, the monitor
  does not fire, and the theorem gives exactly one sentinel. And a run with fewer responses
  than requests and no advisory, where no sentinel is sent.
\<close>

theorem sentinel_sends_witness:
  "responses completion_then_advisory \<le> unat (requests (burst 1))
   \<and> Advisory_arrives \<in> set completion_then_advisory
   \<and> msgs_in (client_run (burst 1) completion_then_advisory) = requests (burst 1)
   \<and> monitor_fired (client_run (burst 1) completion_then_advisory) = 0
   \<and> wakeups (client_run (burst 1) completion_then_advisory) = 1
   \<and> sentinels (client_run (burst 1) completion_then_advisory) = 1
   \<and> responses [Main_step TIBRV_OK, Response_arrives] < unat (requests (burst 2))
   \<and> Advisory_arrives \<notin> set [Main_step TIBRV_OK, Response_arrives]
   \<and> monitor_fired (client_run (burst 2) [Main_step TIBRV_OK, Response_arrives]) = 0
   \<and> sentinels (client_run (burst 2) [Main_step TIBRV_OK, Response_arrives]) = 0"
proof -
  have h: "responses completion_then_advisory \<le> unat (requests (burst 1))"
    by (simp add: completion_then_advisory_def responses_def burst_def)
  have a: "Advisory_arrives \<in> set completion_then_advisory"
    by (simp add: completion_then_advisory_def)
  have r: "requests (burst 1) = 1" by (simp add: burst_def)
  have m: "msgs_in (client_run (burst 1) completion_then_advisory) = 1"
    "monitor_fired (client_run (burst 1) completion_then_advisory) = 0"
    "wakeups (client_run (burst 1) completion_then_advisory) = 1"
    by (simp_all add: completion_then_advisory_def run_defs monitor_fired_def wakeups_def)
  from sentinel_sends [of "burst 1" completion_then_advisory] h
  have "sentinels (client_run (burst 1) completion_then_advisory) =
          monitor_fired (client_run (burst 1) completion_then_advisory)
          + (if msgs_in (client_run (burst 1) completion_then_advisory) = requests (burst 1)
                \<and> requests (burst 1) \<noteq> 0 then 1 else 0)"
    by blast
  then have one: "sentinels (client_run (burst 1) completion_then_advisory) = 1"
    by (simp add: m r)
  have below: "responses [Main_step TIBRV_OK, Response_arrives] < unat (requests (burst 2))
      \<and> Advisory_arrives \<notin> set [Main_step TIBRV_OK, Response_arrives]"
    by (simp add: responses_def burst_def)
  with sentinel_sends [of "burst 2" "[Main_step TIBRV_OK, Response_arrives]"]
  have none: "monitor_fired (client_run (burst 2) [Main_step TIBRV_OK, Response_arrives]) = 0
      \<and> sentinels (client_run (burst 2) [Main_step TIBRV_OK, Response_arrives]) = 0"
    by simp
  from h a m r one below none show ?thesis by simp
qed

text \<open>
  The claim that the two triggers exclude each other fails: after a dispatched disconnect
  the response that completes the count still makes the collector call \<^verbatim>\<open>allDone\<close>, and
  the sentinel is sent twice in one run.
\<close>

theorem sentinel_sent_twice_counterexample:
  "sentinels (client_run (burst 1) disconnect_then_last_response) = 2
   \<and> monitor_fired (client_run (burst 1) disconnect_then_last_response) = 1
   \<and> collector_fired (client_run (burst 1) disconnect_then_last_response) = 1"
  by (simp add: disconnect_then_last_response_def run_defs sentinels_def monitor_fired_def
      collector_fired_def)

text \<open>
  C2, as the code has it. \<^verbatim>\<open>serverResponse\<close> increments \<^verbatim>\<open>msgs_in\<close> for every message
  that arrives and calls \<^verbatim>\<open>allDone\<close> whenever \<^verbatim>\<open>msgs_in >= requests\<close>. If at most
  \<^verbatim>\<open>requests\<close> responses are delivered, then \<^verbatim>\<open>msgs_in\<close> never exceeds \<^verbatim>\<open>requests\<close>,
  and the collector has signalled completion exactly once if \<^verbatim>\<open>msgs_in\<close> has reached a
  non-zero \<^verbatim>\<open>requests\<close>, and not at all otherwise.
\<close>

theorem received_bounded:
  assumes "responses es \<le> unat (requests cfg)"
  shows "msgs_in (client_run cfg es) \<le> requests cfg
         \<and> collector_fired (client_run cfg es) =
             (if msgs_in (client_run cfg es) = requests cfg \<and> requests cfg \<noteq> 0 then 1 else 0)"
proof -
  from assms have "count_inv cfg 0 (client_run cfg es)"
    by (rule count_inv_client_run)
  then show ?thesis
    by (simp add: count_inv_def collector_fired_def word_le_nat_alt)
qed

theorem received_bounded_witness:
  "responses [Main_step TIBRV_OK, Response_arrives] \<le> unat (requests (burst 1))
   \<and> msgs_in (client_run (burst 1) [Main_step TIBRV_OK, Response_arrives]) = 1
   \<and> collector_fired (client_run (burst 1) [Main_step TIBRV_OK, Response_arrives]) = 1"
proof -
  have h: "responses [Main_step TIBRV_OK, Response_arrives] \<le> unat (requests (burst 1))"
    by (simp add: responses_def burst_def)
  have m: "msgs_in (client_run (burst 1) [Main_step TIBRV_OK, Response_arrives]) = 1"
    by (simp add: run_defs)
  show ?thesis
    using h m received_bounded [OF h] by (simp add: burst_def)
qed

text \<open>
  The claim that \<^verbatim>\<open>msgs_in\<close> never exceeds \<^verbatim>\<open>requests\<close> and that completion is
  signalled exactly once fails when the peer delivers one message more: the counter passes
  the target and the collector signals a second time.
\<close>

theorem received_exceeds_requested_counterexample:
  "requests (burst 1) = 1
   \<and> msgs_in (client_run (burst 1) two_responses_to_one_request) = 2
   \<and> collector_fired (client_run (burst 1) two_responses_to_one_request) = 2"
  by (simp add: two_responses_to_one_request_def run_defs sentinels_def monitor_fired_def
      collector_fired_def)


section \<open>A run with no requests\<close>

lemma quiet_inv_step:
  "quiet_inv s \<Longrightarrow> e \<noteq> Response_arrives \<Longrightarrow> e \<noteq> Advisory_arrives \<Longrightarrow> quiet_inv (step cfg e s)"
  by (cases "exited s = None")
     (auto simp: step_running quiet_inv_def callback_defs Let_def
        split: event.splits main_pc.splits)

lemma quiet_inv_run:
  "quiet_inv s \<Longrightarrow> Response_arrives \<notin> set es \<Longrightarrow> Advisory_arrives \<notin> set es
     \<Longrightarrow> quiet_inv (run cfg s es)"
proof (induction es arbitrary: s)
  case Nil
  then show ?case by simp
next
  case (Cons e es)
  from Cons.prems have "e \<noteq> Response_arrives" "e \<noteq> Advisory_arrives" by auto
  with Cons.prems(1) have "quiet_inv (step cfg e s)" by (simp add: quiet_inv_step)
  with Cons.IH Cons.prems show ?case by simp
qed

lemma no_send_step:
  "requests cfg = 0 \<Longrightarrow> vc_sent (step cfg e s) = vc_sent s"
  by (cases "exited s = None")
     (simp_all add: step_running callback_defs Let_def
        split: event.splits main_pc.splits list.splits wait_event.splits)

text \<open>
  C3, as the code has it. With \<^verbatim>\<open>requests\<close> \<open>= 0\<close> no send is ever attempted on the
  circuit. The run does not complete by itself: as long as no response and no disconnect
  advisory arrives, no sentinel is sent, the wait queue stays empty and the main thread
  does not get past \<^verbatim>\<open>tibrvQueue_Dispatch(wait_queue)\<close>. Any message that does arrive on
  the response subject makes the collector send the sentinel at once.
\<close>

theorem zero_requests:
  assumes "requests cfg = 0"
  shows "vc_sent (client_run cfg es) = []
         \<and> (Response_arrives \<notin> set es \<and> Advisory_arrives \<notin> set es \<longrightarrow>
              \<not> past_wait (pc (client_run cfg es))
              \<and> wait_queue (client_run cfg es) = []
              \<and> sentinels (client_run cfg es) = 0)
         \<and> (exited (client_run cfg es) = None \<longrightarrow>
              sentinels (step cfg Response_arrives (client_run cfg es))
                = Suc (sentinels (client_run cfg es)))"
proof (intro conjI impI)
  have "vc_sent (run cfg s es) = vc_sent s" for s
    using assms by (induction es arbitrary: s) (simp_all add: no_send_step)
  then show "vc_sent (client_run cfg es) = []"
    by (simp add: client_run_def client_init_def)
next
  assume a: "Response_arrives \<notin> set es \<and> Advisory_arrives \<notin> set es"
  have "quiet_inv (client_init cfg)"
    by (simp add: quiet_inv_def client_init_def sentinels_def monitor_fired_def past_wait_def)
  with a have q: "quiet_inv (client_run cfg es)"
    unfolding client_run_def by (simp add: quiet_inv_run)
  from q show "\<not> past_wait (pc (client_run cfg es))" by (simp add: quiet_inv_def)
  from q show "wait_queue (client_run cfg es) = []" by (simp add: quiet_inv_def)
  from q show "sentinels (client_run cfg es) = 0" by (simp add: quiet_inv_def)
next
  assume "exited (client_run cfg es) = None"
  then show "sentinels (step cfg Response_arrives (client_run cfg es))
                = Suc (sentinels (client_run cfg es))"
    using assms by (simp add: step_running serverResponse_effect)
qed

theorem zero_requests_witness:
  "requests (paced 0 0) = 0
   \<and> Response_arrives \<notin> set [Main_step TIBRV_OK, Timer_fires TIBRV_OK, Main_step TIBRV_OK]
   \<and> Advisory_arrives \<notin> set [Main_step TIBRV_OK, Timer_fires TIBRV_OK, Main_step TIBRV_OK]
   \<and> exited (client_run (paced 0 0) [Main_step TIBRV_OK, Timer_fires TIBRV_OK, Main_step TIBRV_OK]) = None
   \<and> vc_sent (client_run (paced 0 0) [Main_step TIBRV_OK, Timer_fires TIBRV_OK, Main_step TIBRV_OK]) = []
   \<and> \<not> past_wait (pc (client_run (paced 0 0)
          [Main_step TIBRV_OK, Timer_fires TIBRV_OK, Main_step TIBRV_OK]))
   \<and> sentinels (step (paced 0 0) Response_arrives (client_run (paced 0 0)
          [Main_step TIBRV_OK, Timer_fires TIBRV_OK, Main_step TIBRV_OK])) = 1"
proof -
  have h: "requests (paced 0 0) = 0" by (simp add: paced_def)
  have r: "exited (client_run (paced 0 0)
             [Main_step TIBRV_OK, Timer_fires TIBRV_OK, Main_step TIBRV_OK]) = None"
    by (simp add: run_defs)
  show ?thesis
    using h r zero_requests [OF h, of "[Main_step TIBRV_OK, Timer_fires TIBRV_OK, Main_step TIBRV_OK]"]
    by simp
qed

text \<open>
  The claim that a run with no requests completes immediately fails: after every step the
  main thread can take on its own it is blocked at the wait, with an empty wait queue.
\<close>

theorem zero_requests_blocks_counterexample:
  "requests (burst 0) = 0
   \<and> pc (client_run (burst 0) [Main_step TIBRV_OK, Main_step TIBRV_OK, Main_step TIBRV_OK]) = Waiting
   \<and> wait_queue (client_run (burst 0) [Main_step TIBRV_OK, Main_step TIBRV_OK, Main_step TIBRV_OK]) = []
   \<and> exited (client_run (burst 0) [Main_step TIBRV_OK, Main_step TIBRV_OK, Main_step TIBRV_OK]) = None"
  by (simp add: run_defs)


section \<open>After the disconnect\<close>

lemma past_wait_main_step:
  "past_wait (pc s) \<Longrightarrow> vc_state (main_step cfg rc s) = vc_state s"
  "past_wait (pc s) \<Longrightarrow> vc_sent (main_step cfg rc s) = vc_sent s"
  by (cases "pc s"; simp add: main_step_def report_def Let_def)+

lemma callbacks_vc_state:
  "vc_state (pubReqMsg cfg rc s) = vc_state s"
  "vc_state (serverResponse cfg s) = vc_state s"
  by (simp_all add: pubReqMsg_def serverResponse_def Let_def)

lemma serverResponse_vc_sent: "vc_sent (serverResponse cfg s) = vc_sent s"
  by (simp add: serverResponse_def Let_def)

lemma past_wait_vc_state:
  "past_wait (pc s) \<Longrightarrow> vc_state (step cfg e s) = vc_state s"
  by (cases "exited s = None")
     (simp_all add: step_running past_wait_main_step callbacks_vc_state split: event.splits)

lemma past_wait_vc_sent:
  "past_wait (pc s) \<Longrightarrow> \<not> is_timer e \<or> timer_event s = No_timer
     \<Longrightarrow> vc_sent (step cfg e s) = vc_sent s"
  by (cases "exited s = None"; cases e)
     (auto simp: step_running past_wait_main_step serverResponse_vc_sent)

lemma timer_step_vc_sent:
  "vc_sent (step cfg (Timer_fires rc) s) =
     (if timer_event s = Timer_live \<and> exited s = None \<and> msgs_out s < requests cfg
      then vc_sent s @ [client_request (set_msg_data cfg s)]
      else vc_sent s)"
  by (simp add: step_def pubReqMsg_def Let_def)

text \<open>
  C4, as the code has it. Once \<^verbatim>\<open>vc_state\<close> is \<open>disconnected\<close> it stays so, and the
  disconnect callback has run exactly once. No code tests \<^verbatim>\<open>vc_state\<close> before sending:
  after the disconnect no step of the main thread, no response and no advisory adds a send
  on \<^verbatim>\<open>vc_transport\<close> (so nothing at all is sent in burst mode), but a firing of the
  timer hands exactly one more request to \<^verbatim>\<open>vc_transport\<close> whenever the timer is live,
  the process has not exited and \<^verbatim>\<open>msgs_out < requests\<close>, and none otherwise.
\<close>

theorem after_disconnect:
  assumes "vc_state (client_run cfg es) = disconnected"
  shows "vc_state (step cfg e (client_run cfg es)) = disconnected
         \<and> monitor_fired (step cfg e (client_run cfg es)) = 1
         \<and> (\<not> is_timer e \<or> \<not> interval_nonzero cfg \<longrightarrow>
              vc_sent (step cfg e (client_run cfg es)) = vc_sent (client_run cfg es))
         \<and> vc_sent (step cfg (Timer_fires rc) (client_run cfg es)) =
             (if timer_event (client_run cfg es) = Timer_live
                 \<and> exited (client_run cfg es) = None
                 \<and> msgs_out (client_run cfg es) < requests cfg
              then vc_sent (client_run cfg es)
                     @ [client_request (set_msg_data cfg (client_run cfg es))]
              else vc_sent (client_run cfg es))"
proof -
  let ?s = "client_run cfg es"
  have next_run: "step cfg e ?s = client_run cfg (es @ [e])"
    by (simp add: client_run_def run_snoc)
  from assms have "0 < monitor_fired ?s"
    using vc_inv_run [of cfg es] by (simp add: vc_inv_def)
  with monitor_le_wakeups [of ?s] have "0 < wakeups ?s" by simp
  then have past: "past_wait (pc ?s)"
    using wake_inv_run [of cfg es] by (simp add: wake_inv_def split: if_splits)
  then have st: "vc_state (step cfg e ?s) = disconnected"
    using assms by (simp add: past_wait_vc_state)
  then have "0 < monitor_fired (step cfg e ?s)"
    using vc_inv_run [of cfg "es @ [e]"] by (simp add: vc_inv_def next_run)
  moreover have "monitor_fired (step cfg e ?s) \<le> 1"
    using monitor_le_1 [of cfg "es @ [e]"] by (simp add: next_run)
  ultimately have once: "monitor_fired (step cfg e ?s) = 1" by simp
  have quiet: "vc_sent (step cfg e ?s) = vc_sent ?s"
    if "\<not> is_timer e \<or> \<not> interval_nonzero cfg"
  proof -
    from that have "\<not> is_timer e \<or> timer_event ?s = No_timer"
      using mode_inv_run [of cfg es] by (auto simp: mode_inv_def)
    with past show ?thesis by (rule past_wait_vc_sent)
  qed
  from st once quiet timer_step_vc_sent [of cfg rc ?s] show ?thesis by simp
qed

text \<open>
  In burst mode, after two requests and a dispatched disconnect, the report step of the
  main thread leaves the two sends as they are. In paced mode the timer, still live after
  the disconnect, adds a send.
\<close>

theorem after_disconnect_witness:
  "vc_state (client_run (burst 2) burst_disconnected) = disconnected
   \<and> length (vc_sent (client_run (burst 2) burst_disconnected)) = 2
   \<and> \<not> is_timer (Main_step TIBRV_OK)
   \<and> vc_state (step (burst 2) (Main_step TIBRV_OK)
        (client_run (burst 2) burst_disconnected)) = disconnected
   \<and> monitor_fired (step (burst 2) (Main_step TIBRV_OK)
        (client_run (burst 2) burst_disconnected)) = 1
   \<and> length (vc_sent (step (burst 2) (Main_step TIBRV_OK)
        (client_run (burst 2) burst_disconnected))) = 2
   \<and> vc_state (client_run (paced 2 0) disconnect_before_timer) = disconnected
   \<and> timer_event (client_run (paced 2 0) disconnect_before_timer) = Timer_live
   \<and> exited (client_run (paced 2 0) disconnect_before_timer) = None
   \<and> msgs_out (client_run (paced 2 0) disconnect_before_timer) < requests (paced 2 0)
   \<and> length (vc_sent (step (paced 2 0) (Timer_fires TIBRV_OK)
        (client_run (paced 2 0) disconnect_before_timer))) =
       Suc (length (vc_sent (client_run (paced 2 0) disconnect_before_timer)))"
proof -
  have b: "vc_state (client_run (burst 2) burst_disconnected) = disconnected"
    by (simp add: burst_disconnected_def run_defs)
  have bl: "length (vc_sent (client_run (burst 2) burst_disconnected)) = 2"
    by (simp add: burst_disconnected_def run_defs)
  have p: "vc_state (client_run (paced 2 0) disconnect_before_timer) = disconnected"
    by (simp add: disconnect_before_timer_def run_defs)
  have pl: "timer_event (client_run (paced 2 0) disconnect_before_timer) = Timer_live"
    "exited (client_run (paced 2 0) disconnect_before_timer) = None"
    "msgs_out (client_run (paced 2 0) disconnect_before_timer) < requests (paced 2 0)"
    by (simp_all add: disconnect_before_timer_def run_defs)
  note burst_part = after_disconnect [OF b, of "Main_step TIBRV_OK" TIBRV_OK]
  note paced_part = after_disconnect [OF p, of "Timer_fires TIBRV_OK" TIBRV_OK]
  from burst_part have
    "vc_state (step (burst 2) (Main_step TIBRV_OK)
        (client_run (burst 2) burst_disconnected)) = disconnected"
    "monitor_fired (step (burst 2) (Main_step TIBRV_OK)
        (client_run (burst 2) burst_disconnected)) = 1"
    "vc_sent (step (burst 2) (Main_step TIBRV_OK) (client_run (burst 2) burst_disconnected))
       = vc_sent (client_run (burst 2) burst_disconnected)"
    by simp_all
  moreover from paced_part pl have
    "vc_sent (step (paced 2 0) (Timer_fires TIBRV_OK)
        (client_run (paced 2 0) disconnect_before_timer)) =
       vc_sent (client_run (paced 2 0) disconnect_before_timer)
         @ [client_request (set_msg_data (paced 2 0)
              (client_run (paced 2 0) disconnect_before_timer))]"
    by simp
  ultimately show ?thesis
    using b bl p pl by simp
qed

text \<open>
  The claim that no send is attempted once the state is \<open>disconnected\<close> fails in paced
  mode: a timer callback that runs after the disconnect callback, before \<^verbatim>\<open>main\<close> has
  torn down, hands one more request to \<^verbatim>\<open>vc_transport\<close>.
\<close>

theorem send_after_disconnect_counterexample:
  "vc_state (client_run (paced 2 0) disconnect_before_timer) = disconnected
   \<and> vc_sent (client_run (paced 2 0) disconnect_before_timer) = []
   \<and> length (vc_sent (step (paced 2 0) (Timer_fires TIBRV_OK)
                (client_run (paced 2 0) disconnect_before_timer))) = 1"
  by (simp add: disconnect_before_timer_def run_defs)


section \<open>The exit status and the report\<close>

lemma report_inv_init: "report_inv cfg (client_init cfg)"
  by (simp add: report_inv_def client_init_def)

lemma no_report_line:
  "list_all (\<lambda>p. \<not> report_line (snd p)) ls \<Longrightarrow>
     (f, Rate n start stop) \<notin> set ls \<and> (f, Received_partial a b) \<notin> set ls"
  by (induction ls) auto

lemma report_inv_report:
  assumes "pc s \<noteq> Done" and "report_inv cfg s"
  shows "report_inv cfg (report cfg s)"
proof -
  from assms have "list_all (\<lambda>p. \<not> report_line (snd p)) (out s)"
    by (simp add: report_inv_def)
  then have "(f, Rate n start stop) \<notin> set (out s)" "(f, Received_partial a b) \<notin> set (out s)"
    for f n start stop a b
    by (simp_all add: no_report_line)
  then show ?thesis
    by (auto simp: report_inv_def report_def Let_def)
qed

lemma report_inv_pubReqMsg:
  "pc s \<noteq> Done \<Longrightarrow> report_inv cfg s \<Longrightarrow> report_inv cfg (pubReqMsg cfg rc s)"
  by (simp add: report_inv_def pubReqMsg_def Let_def)

lemma report_inv_serverResponse:
  "pc s \<noteq> Done \<Longrightarrow> report_inv cfg s \<Longrightarrow> report_inv cfg (serverResponse cfg s)"
  by (simp add: report_inv_def serverResponse_def Let_def)

lemma report_inv_main_step:
  "pc s \<noteq> Done \<Longrightarrow> report_inv cfg s \<Longrightarrow> report_inv cfg (main_step cfg rc s)"
proof (cases "pc s = Reporting")
  case True
  assume "pc s \<noteq> Done" "report_inv cfg s"
  then have "report_inv cfg (report cfg s)" by (rule report_inv_report)
  with True show ?thesis by (simp add: main_step_def)
next
  case False
  assume "pc s \<noteq> Done" "report_inv cfg s"
  with False show ?thesis
    by (cases "pc s")
       (simp_all add: report_inv_def main_step_def burst_body_def dispatch_wait_queue_def
          testcompletedCB_def disconnectedVcCallback_def Let_def
          split: list.splits wait_event.splits)
qed

lemma report_inv_step: "report_inv cfg s \<Longrightarrow> report_inv cfg (step cfg e s)"
proof (cases "exited s = None")
  case False
  assume "report_inv cfg s"
  with False show ?thesis by simp
next
  case True
  assume inv: "report_inv cfg s"
  with True have "pc s \<noteq> Done" by (auto simp: report_inv_def)
  with inv True show ?thesis
    by (cases e)
       (simp_all add: step_running report_inv_pubReqMsg report_inv_serverResponse
          report_inv_main_step, simp add: report_inv_def)
qed

lemma report_inv_run: "report_inv cfg (client_run cfg es)"
  unfolding client_run_def
  by (rule run_invariant [where P = "report_inv cfg"])
     (simp_all add: report_inv_init report_inv_step)

lemma report_effect:
  "pc (report cfg s) = Done"
  "exited (report cfg s) = Some (if requests cfg \<le> msgs_in s then 0 else 1)"
  "out (report cfg s) =
     out s @
       (if requests cfg \<le> msgs_in s
        then [(Stdout, Received_all (msgs_in s)),
              (Stdout, Took (requests cfg) (date_time_start cfg) (date_time_stop cfg)),
              (Stdout, Rate (requests cfg) (date_time_start cfg) (date_time_stop cfg))]
        else [(Stdout, Received_partial (msgs_in s) (msgs_out s))])"
  by (simp_all add: report_def Let_def)

lemma dispatch_effect:
  assumes "wait_queue s \<noteq> []"
  shows "pc (dispatch_wait_queue s) = Reporting"
    and "exited (dispatch_wait_queue s) = exited s"
  using assms
  by (cases "wait_queue s";
      simp add: dispatch_wait_queue_def testcompletedCB_def disconnectedVcCallback_def Let_def
        split: wait_event.splits)+

text \<open>
  C5. The process exits with status 0 exactly when \<^verbatim>\<open>main\<close> has passed its report with
  \<^verbatim>\<open>msgs_in >= requests\<close>; exactly then the line with the rate \<^verbatim>\<open>requests / elapsed\<close>
  has been printed. When \<^verbatim>\<open>main\<close> has passed its report with \<^verbatim>\<open>msgs_in < requests\<close>,
  and only then, the line with the two counts has been printed instead, and the exit
  status is 1. And \<^verbatim>\<open>main\<close> does pass its report: once the wait queue holds an event,
  its next step leaves the wait, and the step after that prints, by the test
  \<^verbatim>\<open>msgs_in >= requests\<close>, either the three lines of a complete run (the last one the
  rate) or the one line with the two counts, and exits with 0 or 1 accordingly.
\<close>

theorem exit_status_reflects_completion:
  "(exited (client_run cfg es) = Some 0)
      = (pc (client_run cfg es) = Done \<and> requests cfg \<le> msgs_in (client_run cfg es))
   \<and> ((Stdout, Rate (requests cfg) (date_time_start cfg) (date_time_stop cfg))
         \<in> set (out (client_run cfg es)))
      = (pc (client_run cfg es) = Done \<and> requests cfg \<le> msgs_in (client_run cfg es))
   \<and> (pc (client_run cfg es) = Done \<and> exited (client_run cfg es) = Some 1)
      = (pc (client_run cfg es) = Done \<and> msgs_in (client_run cfg es) < requests cfg)
   \<and> ((Stdout, Received_partial (msgs_in (client_run cfg es)) (msgs_out (client_run cfg es)))
         \<in> set (out (client_run cfg es)))
      = (pc (client_run cfg es) = Done \<and> msgs_in (client_run cfg es) < requests cfg)
   \<and> (pc (client_run cfg es) = Waiting \<and> wait_queue (client_run cfg es) \<noteq> []
        \<and> exited (client_run cfg es) = None \<longrightarrow>
          pc (step cfg (Main_step rc) (client_run cfg es)) = Reporting
          \<and> exited (step cfg (Main_step rc) (client_run cfg es)) = None)
   \<and> (pc (client_run cfg es) = Reporting \<and> exited (client_run cfg es) = None \<longrightarrow>
          pc (step cfg (Main_step rc) (client_run cfg es)) = Done
          \<and> exited (step cfg (Main_step rc) (client_run cfg es)) =
              Some (if requests cfg \<le> msgs_in (client_run cfg es) then 0 else 1)
          \<and> out (step cfg (Main_step rc) (client_run cfg es)) =
              out (client_run cfg es) @
                (if requests cfg \<le> msgs_in (client_run cfg es)
                 then [(Stdout, Received_all (msgs_in (client_run cfg es))),
                       (Stdout, Took (requests cfg) (date_time_start cfg) (date_time_stop cfg)),
                       (Stdout, Rate (requests cfg) (date_time_start cfg) (date_time_stop cfg))]
                 else [(Stdout, Received_partial (msgs_in (client_run cfg es))
                                  (msgs_out (client_run cfg es)))]))"
proof -
  let ?s = "client_run cfg es"
  have inv: "report_inv cfg ?s" by (rule report_inv_run)
  have final:
    "(exited ?s = Some 0) = (pc ?s = Done \<and> requests cfg \<le> msgs_in ?s)
     \<and> ((Stdout, Rate (requests cfg) (date_time_start cfg) (date_time_stop cfg)) \<in> set (out ?s))
        = (pc ?s = Done \<and> requests cfg \<le> msgs_in ?s)
     \<and> (pc ?s = Done \<and> exited ?s = Some 1) = (pc ?s = Done \<and> msgs_in ?s < requests cfg)
     \<and> ((Stdout, Received_partial (msgs_in ?s) (msgs_out ?s)) \<in> set (out ?s))
        = (pc ?s = Done \<and> msgs_in ?s < requests cfg)"
  proof (cases "pc ?s = Done")
    case True
    with inv show ?thesis by (auto simp: report_inv_def not_le)
  next
    case False
    with inv have "exited ?s \<noteq> Some 0" and "list_all (\<lambda>p. \<not> report_line (snd p)) (out ?s)"
      by (simp_all add: report_inv_def)
    with False show ?thesis by (simp add: no_report_line)
  qed
  have wake: "pc (step cfg (Main_step rc) ?s) = Reporting
              \<and> exited (step cfg (Main_step rc) ?s) = None"
    if "pc ?s = Waiting \<and> wait_queue ?s \<noteq> [] \<and> exited ?s = None"
    using that by (simp add: step_running main_step_def dispatch_effect)
  have rep: "pc (step cfg (Main_step rc) ?s) = Done
      \<and> exited (step cfg (Main_step rc) ?s) = Some (if requests cfg \<le> msgs_in ?s then 0 else 1)
      \<and> out (step cfg (Main_step rc) ?s) =
          out ?s @
            (if requests cfg \<le> msgs_in ?s
             then [(Stdout, Received_all (msgs_in ?s)),
                   (Stdout, Took (requests cfg) (date_time_start cfg) (date_time_stop cfg)),
                   (Stdout, Rate (requests cfg) (date_time_start cfg) (date_time_stop cfg))]
             else [(Stdout, Received_partial (msgs_in ?s) (msgs_out ?s))])"
    if "pc ?s = Reporting \<and> exited ?s = None"
    using that by (simp add: step_running main_step_def report_effect)
  from final wake rep show ?thesis by blast
qed

text \<open>
  A run cut short by a disconnect: with the advisory queued the main thread leaves the
  wait; at its report the step prints the two counts and exits with 1. A complete run has
  exited with 0 and printed the rate.
\<close>

theorem exit_status_reflects_completion_witness:
  "pc (client_run (burst 1) advisory_queued) = Waiting
   \<and> wait_queue (client_run (burst 1) advisory_queued) \<noteq> []
   \<and> exited (client_run (burst 1) advisory_queued) = None
   \<and> pc (step (burst 1) (Main_step TIBRV_OK) (client_run (burst 1) advisory_queued))
        = Reporting
   \<and> pc (client_run (burst 1) disconnected_before_report) = Reporting
   \<and> exited (client_run (burst 1) disconnected_before_report) = None
   \<and> msgs_in (client_run (burst 1) disconnected_before_report) = 0
   \<and> msgs_out (client_run (burst 1) disconnected_before_report) = 1
   \<and> requests (burst 1) = 1
   \<and> pc (step (burst 1) (Main_step TIBRV_OK)
         (client_run (burst 1) disconnected_before_report)) = Done
   \<and> exited (step (burst 1) (Main_step TIBRV_OK)
         (client_run (burst 1) disconnected_before_report)) = Some 1
   \<and> out (step (burst 1) (Main_step TIBRV_OK)
         (client_run (burst 1) disconnected_before_report)) =
        out (client_run (burst 1) disconnected_before_report)
          @ [(Stdout, Received_partial 0 1)]
   \<and> pc (client_run (burst 1) complete_run) = Done
   \<and> requests (burst 1) \<le> msgs_in (client_run (burst 1) complete_run)
   \<and> exited (client_run (burst 1) complete_run) = Some 0
   \<and> (Stdout, Rate 1 (date_time_start (burst 1)) (date_time_stop (burst 1)))
        \<in> set (out (client_run (burst 1) complete_run))"
proof -
  have r: "requests (burst 1) = 1" by (simp add: burst_def)
  have p: "pc (client_run (burst 1) disconnected_before_report) = Reporting
           \<and> exited (client_run (burst 1) disconnected_before_report) = None"
    by (simp add: disconnected_before_report_def run_defs)
  have m: "msgs_in (client_run (burst 1) disconnected_before_report) = 0"
    "msgs_out (client_run (burst 1) disconnected_before_report) = 1"
    by (simp_all add: disconnected_before_report_def run_defs)
  have c: "pc (client_run (burst 1) complete_run) = Done
           \<and> requests (burst 1) \<le> msgs_in (client_run (burst 1) complete_run)"
    by (simp add: complete_run_def run_defs)
  from exit_status_reflects_completion [of "burst 1" disconnected_before_report TIBRV_OK] p
  have "pc (step (burst 1) (Main_step TIBRV_OK)
             (client_run (burst 1) disconnected_before_report)) = Done
      \<and> exited (step (burst 1) (Main_step TIBRV_OK)
             (client_run (burst 1) disconnected_before_report)) =
          Some (if requests (burst 1) \<le> msgs_in (client_run (burst 1) disconnected_before_report)
                then 0 else 1)
      \<and> out (step (burst 1) (Main_step TIBRV_OK)
             (client_run (burst 1) disconnected_before_report)) =
          out (client_run (burst 1) disconnected_before_report) @
            (if requests (burst 1) \<le> msgs_in (client_run (burst 1) disconnected_before_report)
             then [(Stdout, Received_all (msgs_in (client_run (burst 1) disconnected_before_report))),
                   (Stdout, Took (requests (burst 1)) (date_time_start (burst 1))
                              (date_time_stop (burst 1))),
                   (Stdout, Rate (requests (burst 1)) (date_time_start (burst 1))
                              (date_time_stop (burst 1)))]
             else [(Stdout, Received_partial
                              (msgs_in (client_run (burst 1) disconnected_before_report))
                              (msgs_out (client_run (burst 1) disconnected_before_report)))])"
    by blast
  then have partial:
    "pc (step (burst 1) (Main_step TIBRV_OK)
         (client_run (burst 1) disconnected_before_report)) = Done
     \<and> exited (step (burst 1) (Main_step TIBRV_OK)
         (client_run (burst 1) disconnected_before_report)) = Some 1
     \<and> out (step (burst 1) (Main_step TIBRV_OK)
         (client_run (burst 1) disconnected_before_report)) =
        out (client_run (burst 1) disconnected_before_report)
          @ [(Stdout, Received_partial 0 1)]"
    by (simp add: m r)
  have q: "pc (client_run (burst 1) advisory_queued) = Waiting
           \<and> wait_queue (client_run (burst 1) advisory_queued) \<noteq> []
           \<and> exited (client_run (burst 1) advisory_queued) = None"
    by (simp add: advisory_queued_def run_defs)
  with exit_status_reflects_completion [of "burst 1" advisory_queued TIBRV_OK]
  have woken: "pc (step (burst 1) (Main_step TIBRV_OK) (client_run (burst 1) advisory_queued))
                 = Reporting"
    by blast
  from exit_status_reflects_completion [of "burst 1" complete_run TIBRV_OK] c
  have complete:
    "exited (client_run (burst 1) complete_run) = Some 0
     \<and> (Stdout, Rate 1 (date_time_start (burst 1)) (date_time_stop (burst 1)))
          \<in> set (out (client_run (burst 1) complete_run))"
    by (simp add: r)
  from q woken p m r c partial complete show ?thesis by simp
qed

lemma partial_run_example:
  "pc (client_run (burst 1) disconnected_run) = Done
   \<and> msgs_in (client_run (burst 1) disconnected_run) < requests (burst 1)
   \<and> exited (client_run (burst 1) disconnected_run) = Some 1
   \<and> out (client_run (burst 1) disconnected_run) =
       [(Stdout, Sent_summary 1 0), (Stderr, Vc_disconnected), (Stderr, Status 1 0),
        (Stdout, Received_partial 0 1)]"
  by (simp add: disconnected_run_def run_defs)


section \<open>Status lines in paced mode\<close>

lemma sent_status_append: "sent_status (ls @ ms) = sent_status ls @ sent_status ms"
  by (induction ls rule: sent_status.induct) simp_all

lemma multiples_upto_0: "multiples_upto f 0 = []"
  by (simp add: multiples_upto_def)

lemma multiples_upto_inc:
  assumes "m < n"
  shows "multiples_upto f (m + 1) = multiples_upto f m @ (if status_due f (m + 1) then [m + 1] else [])"
proof -
  from assms have "unat m + 1 + 0 \<le> unat n" by (simp add: word_less_nat_alt)
  then have u: "unat (m + 1) = unat m + 1" by (rule inc_facts(1))
  have "word_of_nat (Suc (unat m)) = m + 1" by simp
  with u show ?thesis
    by (simp add: multiples_upto_def status_due_iff add.commute)
qed

lemma paced_inv_init: "interval_nonzero cfg \<Longrightarrow> paced_inv cfg (client_init cfg)"
  by (simp add: paced_inv_def client_init_def expected_status_def multiples_upto_0 no_sending_def)

lemma expected_status_frame [simp]:
  "expected_status cfg (print f l s) = expected_status cfg s"
  "expected_status cfg (allDone s) = expected_status cfg s"
  "expected_status cfg (s\<lparr>pc := p\<rparr>) = expected_status cfg s"
  "expected_status cfg (s\<lparr>exited := x\<rparr>) = expected_status cfg s"
  "expected_status cfg (s\<lparr>msgs_in := a\<rparr>) = expected_status cfg s"
  "expected_status cfg (s\<lparr>wait_queue := q\<rparr>) = expected_status cfg s"
  "expected_status cfg (s\<lparr>vc_state := v\<rparr>) = expected_status cfg s"
  "expected_status cfg (send_on_vc s) = expected_status cfg s"
  "expected_status cfg (set_msg_data cfg' s) = expected_status cfg s"
  by (simp_all add: expected_status_def)

lemma paced_inv_serverResponse:
  "paced_inv cfg s \<Longrightarrow> paced_inv cfg (serverResponse cfg s)"
  by (auto simp: paced_inv_def serverResponse_def Let_def sent_status_append)

lemma paced_inv_main_step:
  "paced_inv cfg s \<Longrightarrow> paced_inv cfg (main_step cfg rc s)"
  by (cases "pc s")
     (auto simp: paced_inv_def main_step_def dispatch_wait_queue_def report_def
        testcompletedCB_def disconnectedVcCallback_def Let_def sent_status_append
        no_sending_def expected_status_def multiples_upto_0 word_neq_0_conv
        split: list.splits wait_event.splits)

lemma paced_inv_pubReqMsg:
  assumes inv: "paced_inv cfg s" and live: "timer_event s = Timer_live"
    and f: "0 < status_frq cfg" and running: "exited s = None"
  shows "paced_inv cfg (pubReqMsg cfg rc s)"
proof (cases "msgs_out s < requests cfg")
  case True
  then have n0: "requests cfg \<noteq> 0" by auto
  note inc = multiples_upto_inc [OF True, of "status_frq cfg"]
  from True have le: "unat (msgs_out s) + 1 + 0 \<le> unat (requests cfg)"
    by (simp add: word_less_nat_alt)
  show ?thesis
  proof (cases "rc = TIBRV_OK")
    case False
    with inv live True n0 f running show ?thesis
      by (simp add: paced_inv_def pubReqMsg_def Let_def sent_status_append expected_status_def)
  next
    case ok: True
    show ?thesis
    proof (cases "msgs_out s + 1 = requests cfg")
      case True
      with inv live \<open>msgs_out s < requests cfg\<close> n0 f running ok inc show ?thesis
        by (simp add: paced_inv_def pubReqMsg_def Let_def sent_status_append expected_status_def)
    next
      case False
      with inc_facts(3) [OF le] have "msgs_out s + 1 < requests cfg"
        by (simp add: not_le [symmetric])
      with False inv live \<open>msgs_out s < requests cfg\<close> n0 f running ok inc show ?thesis
        by (simp add: paced_inv_def pubReqMsg_def Let_def sent_status_append expected_status_def)
    qed
  qed
next
  case False
  with inv live have z: "requests cfg = 0" "msgs_out s = 0"
    by (auto simp: paced_inv_def)
  have due: "status_due (status_frq cfg) 0" by (simp add: status_due_def)
  from inv live z f due running show ?thesis
    by (simp add: paced_inv_def pubReqMsg_def Let_def sent_status_append expected_status_def)
qed

lemma paced_inv_step:
  assumes "0 < status_frq cfg" and "paced_inv cfg s"
  shows "paced_inv cfg (step cfg e s)"
proof (cases "exited s = None")
  case False
  with assms show ?thesis by simp
next
  case True
  show ?thesis
  proof (cases e)
    case (Main_step rc)
    with True assms show ?thesis by (simp add: step_running paced_inv_main_step)
  next
    case (Timer_fires rc)
    with True assms show ?thesis by (simp add: step_running paced_inv_pubReqMsg)
  next
    case Response_arrives
    with True assms show ?thesis by (simp add: step_running paced_inv_serverResponse)
  next
    case Advisory_arrives
    with True assms show ?thesis
      by (simp add: step_running paced_inv_def expected_status_def)
  qed
qed

lemma paced_inv_run:
  assumes "interval_nonzero cfg" and "0 < status_frq cfg"
  shows "paced_inv cfg (client_run cfg es)"
  unfolding client_run_def
  by (rule run_invariant [where P = "paced_inv cfg"])
     (simp_all add: assms paced_inv_init paced_inv_step)

lemma distinct_multiples_upto: "distinct (multiples_upto f n)"
proof -
  have "unat n < 2 ^ 32" using unsigned_less [of n, where ?'a = nat] by simp
  then have "set [1..<Suc (unat n)] \<subseteq> {0..<2 ^ LENGTH(32)}" by auto
  then have "inj_on (word_of_nat :: nat \<Rightarrow> tibrv_u32) (set [1..<Suc (unat n)])"
    by (rule inj_on_subset [OF inj_on_word_of_nat])
  then have "distinct (map (word_of_nat :: nat \<Rightarrow> tibrv_u32) [1..<Suc (unat n)])"
    by (simp add: distinct_map)
  then show ?thesis
    unfolding multiples_upto_def by (rule distinct_filter)
qed

lemma pubReqMsg_ok:
  assumes "exited s = None" and "timer_event s = Timer_live"
    and "rc = TIBRV_OK \<or> \<not> msgs_out s < requests cfg"
  shows "msgs_out (pubReqMsg cfg rc s) =
           (if msgs_out s < requests cfg then msgs_out s + 1 else msgs_out s)"
    and "exited (pubReqMsg cfg rc s) = None"
    and "timer_event (pubReqMsg cfg rc s) =
           (if msgs_out (pubReqMsg cfg rc s) = requests cfg
            then Timer_destroyed else Timer_live)"
    and "out (pubReqMsg cfg rc s) =
           out s
           @ (if 0 < status_frq cfg
                 \<and> status_due (status_frq cfg) (msgs_out (pubReqMsg cfg rc s))
              then [(Stdout, Status (msgs_out (pubReqMsg cfg rc s)) (msgs_in s))] else [])
           @ (if msgs_out (pubReqMsg cfg rc s) = requests cfg
              then [(Stdout, Received_while_sending (msgs_in s)
                               (msgs_out (pubReqMsg cfg rc s)))]
              else [])"
  using assms by (auto simp: pubReqMsg_def Let_def)

lemma pubReqMsg_failed:
  assumes "exited s = None" and "msgs_out s < requests cfg" and "rc \<noteq> TIBRV_OK"
  shows "exited (pubReqMsg cfg rc s) = Some 1"
    and "msgs_out (pubReqMsg cfg rc s) = msgs_out s"
    and "timer_event (pubReqMsg cfg rc s) = timer_event s"
    and "out (pubReqMsg cfg rc s) = out s @ [(Stderr, Send_failed)]"
  using assms by (simp_all add: pubReqMsg_def Let_def)

text \<open>
  C9. In paced mode with \<^verbatim>\<open>status_frq\<close> \<open>= f > 0\<close>, the test
  \<^verbatim>\<open>(msgs_out/f)*f == msgs_out\<close> is \<open>msgs_out mod f = 0\<close>, and at every point of a run
  the status lines printed by the timer callback are exactly the multiples of \<open>f\<close> among
  the values \<open>1, ..., msgs_out\<close> that the sent counter has taken, in increasing order,
  each once (for \<^verbatim>\<open>requests\<close> \<open>= 0\<close>: the single line for 0, printed by the callback
  that cancels the timer). The timer is live only while the counter is below the target,
  and it has been destroyed only when the counter has reached it. One firing of the live
  timer, while the process runs, does this: if the counter is below the target a request
  is sent and, unless the send fails, the counter advances by one; a status line with the
  new count is printed exactly when the count is a multiple of \<open>f\<close>; the timer is
  destroyed exactly when the count has reached the target. A failed send prints the
  error and exits with 1. A timer that is not live fires no more.
\<close>

theorem paced_status_lines:
  assumes "interval_nonzero cfg" and "0 < status_frq cfg"
  shows "status_due (status_frq cfg) m = (m mod status_frq cfg = 0)
         \<and> sent_status (out (client_run cfg es)) =
             (if requests cfg = 0
              then (if timer_event (client_run cfg es) = Timer_destroyed then [0] else [])
              else filter (\<lambda>k. k mod status_frq cfg = 0)
                     (map word_of_nat [1..<Suc (unat (msgs_out (client_run cfg es)))]))
         \<and> distinct (sent_status (out (client_run cfg es)))
         \<and> (timer_event (client_run cfg es) = Timer_destroyed \<longrightarrow>
              msgs_out (client_run cfg es) = requests cfg)
         \<and> (timer_event (client_run cfg es) = Timer_live \<and> requests cfg \<noteq> 0 \<longrightarrow>
              msgs_out (client_run cfg es) < requests cfg)
         \<and> (timer_event (client_run cfg es) = Timer_live \<and> exited (client_run cfg es) = None
              \<and> (rc = TIBRV_OK \<or> \<not> msgs_out (client_run cfg es) < requests cfg)
              \<longrightarrow>
              msgs_out (step cfg (Timer_fires rc) (client_run cfg es)) =
                (if msgs_out (client_run cfg es) < requests cfg
                 then msgs_out (client_run cfg es) + 1 else msgs_out (client_run cfg es))
              \<and> out (step cfg (Timer_fires rc) (client_run cfg es)) =
                  out (client_run cfg es)
                  @ (if msgs_out (step cfg (Timer_fires rc) (client_run cfg es))
                          mod status_frq cfg = 0
                     then [(Stdout,
                            Status (msgs_out (step cfg (Timer_fires rc) (client_run cfg es)))
                                   (msgs_in (client_run cfg es)))]
                     else [])
                  @ (if msgs_out (step cfg (Timer_fires rc) (client_run cfg es))
                          = requests cfg
                     then [(Stdout,
                            Received_while_sending (msgs_in (client_run cfg es))
                              (msgs_out (step cfg (Timer_fires rc) (client_run cfg es))))]
                     else [])
              \<and> timer_event (step cfg (Timer_fires rc) (client_run cfg es)) =
                  (if msgs_out (step cfg (Timer_fires rc) (client_run cfg es))
                        = requests cfg
                   then Timer_destroyed else Timer_live)
              \<and> exited (step cfg (Timer_fires rc) (client_run cfg es)) = None)
         \<and> (timer_event (client_run cfg es) = Timer_live \<and> exited (client_run cfg es) = None
              \<and> rc \<noteq> TIBRV_OK \<and> msgs_out (client_run cfg es) < requests cfg
              \<longrightarrow>
              exited (step cfg (Timer_fires rc) (client_run cfg es)) = Some 1
              \<and> msgs_out (step cfg (Timer_fires rc) (client_run cfg es))
                  = msgs_out (client_run cfg es)
              \<and> out (step cfg (Timer_fires rc) (client_run cfg es))
                  = out (client_run cfg es) @ [(Stderr, Send_failed)])
         \<and> (timer_event (client_run cfg es) \<noteq> Timer_live \<longrightarrow>
              step cfg (Timer_fires rc) (client_run cfg es) = client_run cfg es)"
proof -
  let ?s = "client_run cfg es"
  let ?t = "step cfg (Timer_fires rc) ?s"
  from assms have inv: "paced_inv cfg ?s" by (rule paced_inv_run)
  then have eq: "sent_status (out ?s) = expected_status cfg ?s"
    by (simp add: paced_inv_def)
  have "distinct (expected_status cfg ?s)"
    by (simp add: expected_status_def distinct_multiples_upto)
  with eq have d: "distinct (sent_status (out ?s))" by simp
  from inv have t: "timer_event ?s = Timer_destroyed \<longrightarrow> msgs_out ?s = requests cfg"
    "timer_event ?s = Timer_live \<and> requests cfg \<noteq> 0 \<longrightarrow> msgs_out ?s < requests cfg"
    by (auto simp: paced_inv_def)
  have run: "status_due (status_frq cfg) m = (m mod status_frq cfg = 0)
         \<and> sent_status (out ?s) =
             (if requests cfg = 0
              then (if timer_event ?s = Timer_destroyed then [0] else [])
              else filter (\<lambda>k. k mod status_frq cfg = 0)
                     (map word_of_nat [1..<Suc (unat (msgs_out ?s))]))
         \<and> distinct (sent_status (out ?s))"
    using eq d by (simp add: status_due_iff expected_status_def multiples_upto_def)
  have f: "timer_event ?s = Timer_live \<and> exited ?s = None
        \<and> (rc = TIBRV_OK \<or> \<not> msgs_out ?s < requests cfg) \<longrightarrow>
      msgs_out ?t = (if msgs_out ?s < requests cfg then msgs_out ?s + 1 else msgs_out ?s)
      \<and> out ?t =
          out ?s
          @ (if msgs_out ?t mod status_frq cfg = 0
             then [(Stdout, Status (msgs_out ?t) (msgs_in ?s))] else [])
          @ (if msgs_out ?t = requests cfg
             then [(Stdout, Received_while_sending (msgs_in ?s) (msgs_out ?t))] else [])
      \<and> timer_event ?t = (if msgs_out ?t = requests cfg then Timer_destroyed else Timer_live)
      \<and> exited ?t = None"
  proof
    assume live: "timer_event ?s = Timer_live \<and> exited ?s = None
        \<and> (rc = TIBRV_OK \<or> \<not> msgs_out ?s < requests cfg)"
    then have st: "?t = pubReqMsg cfg rc ?s"
      by (simp add: step_running)
    from live have r: "exited ?s = None" and l: "timer_event ?s = Timer_live"
      and k: "rc = TIBRV_OK \<or> \<not> msgs_out ?s < requests cfg" by simp_all
    note e = pubReqMsg_ok [OF r l k]
    from e(1) e(2) e(3) e(4) assms(2)
    show "msgs_out ?t = (if msgs_out ?s < requests cfg then msgs_out ?s + 1 else msgs_out ?s)
      \<and> out ?t =
          out ?s
          @ (if msgs_out ?t mod status_frq cfg = 0
             then [(Stdout, Status (msgs_out ?t) (msgs_in ?s))] else [])
          @ (if msgs_out ?t = requests cfg
             then [(Stdout, Received_while_sending (msgs_in ?s) (msgs_out ?t))] else [])
      \<and> timer_event ?t = (if msgs_out ?t = requests cfg then Timer_destroyed else Timer_live)
      \<and> exited ?t = None"
      unfolding st by (simp only: status_due_iff simp_thms if_True)
  qed
  have b: "timer_event ?s = Timer_live \<and> exited ?s = None
        \<and> rc \<noteq> TIBRV_OK \<and> msgs_out ?s < requests cfg \<longrightarrow>
      exited ?t = Some 1 \<and> msgs_out ?t = msgs_out ?s
      \<and> out ?t = out ?s @ [(Stderr, Send_failed)]"
    by (simp add: step_running pubReqMsg_failed)
  have g: "timer_event ?s \<noteq> Timer_live \<longrightarrow> ?t = ?s"
    by (simp add: step_def)
  show ?thesis
    by (rule conjI [OF conjunct1 [OF run] conjI [OF conjunct1 [OF conjunct2 [OF run]]
          conjI [OF conjunct2 [OF conjunct2 [OF run]] conjI [OF t(1) conjI [OF t(2)
          conjI [OF f conjI [OF b g]]]]]]])
qed

text \<open>
  With five requests and \<open>f = 2\<close>: the second firing prints the line for 2, the fifth
  prints no status line and destroys the timer, a failed send exits with 1, the whole run
  prints the lines for 2 and 4, and a firing after it changes nothing.
\<close>

theorem paced_status_lines_witness:
  "interval_nonzero (paced 5 2) \<and> 0 < status_frq (paced 5 2)
   \<and> timer_event (client_run (paced 5 2) one_timer_event) = Timer_live
   \<and> exited (client_run (paced 5 2) one_timer_event) = None
   \<and> msgs_out (client_run (paced 5 2) one_timer_event) = 1
   \<and> msgs_out (step (paced 5 2) (Timer_fires TIBRV_OK)
        (client_run (paced 5 2) one_timer_event)) = 2
   \<and> out (step (paced 5 2) (Timer_fires TIBRV_OK) (client_run (paced 5 2) one_timer_event)) =
        out (client_run (paced 5 2) one_timer_event) @ [(Stdout, Status 2 0)]
   \<and> timer_event (step (paced 5 2) (Timer_fires TIBRV_OK)
        (client_run (paced 5 2) one_timer_event)) = Timer_live
   \<and> timer_event (client_run (paced 5 2) four_timer_events) = Timer_live
   \<and> exited (client_run (paced 5 2) four_timer_events) = None
   \<and> msgs_out (client_run (paced 5 2) four_timer_events) = 4
   \<and> msgs_out (step (paced 5 2) (Timer_fires TIBRV_OK)
        (client_run (paced 5 2) four_timer_events)) = 5
   \<and> out (step (paced 5 2) (Timer_fires TIBRV_OK) (client_run (paced 5 2) four_timer_events)) =
        out (client_run (paced 5 2) four_timer_events)
          @ [(Stdout, Received_while_sending 0 5)]
   \<and> timer_event (step (paced 5 2) (Timer_fires TIBRV_OK)
        (client_run (paced 5 2) four_timer_events)) = Timer_destroyed
   \<and> exited (step (paced 5 2) (Timer_fires TIBRV_INVALID_TRANSPORT)
        (client_run (paced 5 2) one_timer_event)) = Some 1
   \<and> out (step (paced 5 2) (Timer_fires TIBRV_INVALID_TRANSPORT)
        (client_run (paced 5 2) one_timer_event)) =
        out (client_run (paced 5 2) one_timer_event) @ [(Stderr, Send_failed)]
   \<and> msgs_out (client_run (paced 5 2) seven_timer_events) = 5
   \<and> timer_event (client_run (paced 5 2) seven_timer_events) = Timer_destroyed
   \<and> sent_status (out (client_run (paced 5 2) seven_timer_events)) = [2, 4]
   \<and> step (paced 5 2) (Timer_fires TIBRV_OK) (client_run (paced 5 2) seven_timer_events)
        = client_run (paced 5 2) seven_timer_events"
proof -
  have h1: "interval_nonzero (paced 5 2)" by (simp add: paced_def)
  have h2: "0 < status_frq (paced 5 2)" by (simp add: paced_def)
  have r: "requests (paced 5 2) = 5" "status_frq (paced 5 2) = 2" by (simp_all add: paced_def)
  have one: "timer_event (client_run (paced 5 2) one_timer_event) = Timer_live
             \<and> exited (client_run (paced 5 2) one_timer_event) = None"
    "msgs_out (client_run (paced 5 2) one_timer_event) = 1"
    "msgs_in (client_run (paced 5 2) one_timer_event) = 0"
    by (simp_all add: one_timer_event_def run_defs)
  have four: "timer_event (client_run (paced 5 2) four_timer_events) = Timer_live
              \<and> exited (client_run (paced 5 2) four_timer_events) = None"
    "msgs_out (client_run (paced 5 2) four_timer_events) = 4"
    "msgs_in (client_run (paced 5 2) four_timer_events) = 0"
    by (simp_all add: four_timer_events_def run_defs)
  have m: "msgs_out (client_run (paced 5 2) seven_timer_events) = 5"
    "timer_event (client_run (paced 5 2) seven_timer_events) = Timer_destroyed"
    by code_simp+
  have e: "filter (\<lambda>k. k mod 2 = 0) (map word_of_nat [1..<Suc (unat (5 :: tibrv_u32))])
             = [2, 4 :: tibrv_u32]"
    by code_simp
  note th1 = paced_status_lines [OF h1 h2, of 0 one_timer_event TIBRV_OK]
  note th4 = paced_status_lines [OF h1 h2, of 0 four_timer_events TIBRV_OK]
  note th7 = paced_status_lines [OF h1 h2, of 0 seven_timer_events TIBRV_OK]
  from th1 one(1) have f1:
    "msgs_out (step (paced 5 2) (Timer_fires TIBRV_OK)
        (client_run (paced 5 2) one_timer_event)) = 2
     \<and> out (step (paced 5 2) (Timer_fires TIBRV_OK) (client_run (paced 5 2) one_timer_event)) =
        out (client_run (paced 5 2) one_timer_event) @ [(Stdout, Status 2 0)]
     \<and> timer_event (step (paced 5 2) (Timer_fires TIBRV_OK)
        (client_run (paced 5 2) one_timer_event)) = Timer_live"
    by (simp add: r one(2) one(3))
  from th4 four(1) have f4:
    "msgs_out (step (paced 5 2) (Timer_fires TIBRV_OK)
        (client_run (paced 5 2) four_timer_events)) = 5
     \<and> out (step (paced 5 2) (Timer_fires TIBRV_OK) (client_run (paced 5 2) four_timer_events)) =
        out (client_run (paced 5 2) four_timer_events)
          @ [(Stdout, Received_while_sending 0 5)]
     \<and> timer_event (step (paced 5 2) (Timer_fires TIBRV_OK)
        (client_run (paced 5 2) four_timer_events)) = Timer_destroyed"
    by (simp add: r four(2) four(3))
  from paced_status_lines [OF h1 h2, of 0 one_timer_event TIBRV_INVALID_TRANSPORT] one(1)
  have fb:
    "exited (step (paced 5 2) (Timer_fires TIBRV_INVALID_TRANSPORT)
        (client_run (paced 5 2) one_timer_event)) = Some 1
     \<and> out (step (paced 5 2) (Timer_fires TIBRV_INVALID_TRANSPORT)
        (client_run (paced 5 2) one_timer_event)) =
        out (client_run (paced 5 2) one_timer_event) @ [(Stderr, Send_failed)]"
    by (simp add: r one(2) one(3))
  from th7
  have "sent_status (out (client_run (paced 5 2) seven_timer_events)) =
          filter (\<lambda>k. k mod 2 = 0)
            (map word_of_nat
               [1..<Suc (unat (msgs_out (client_run (paced 5 2) seven_timer_events)))])"
    by (simp only: r) simp
  then have f7: "sent_status (out (client_run (paced 5 2) seven_timer_events)) = [2, 4]"
    by (simp only: m e)
  from th7 m(2)
  have f8: "step (paced 5 2) (Timer_fires TIBRV_OK) (client_run (paced 5 2) seven_timer_events)
              = client_run (paced 5 2) seven_timer_events"
    by simp
  from h1 h2 one four m f1 f4 fb f7 f8 show ?thesis by simp
qed

end
